theory Spec2Isabelle
  imports Main
begin

section \<open>Go strings and numbers used by the mail clients\<close>

text \<open>
  A Go string is a sequence of bytes, modelled as \<open>string\<close> (a list of 8-bit characters).
  The functions below are the ones of packages \<^verbatim>\<open>strings\<close>, \<^verbatim>\<open>strconv\<close>, \<^verbatim>\<open>fmt\<close> and
  \<^verbatim>\<open>encoding/base64\<close> that the clients call, with the behaviour of the Go standard library
  on a 64-bit platform.
\<close>

abbreviation CR :: char where "CR \<equiv> CHR 0x0D"
abbreviation LF :: char where "LF \<equiv> CHR 0x0A"
abbreviation CRLF :: string where "CRLF \<equiv> [CR, LF]"

definition HasPrefix :: "string \<Rightarrow> string \<Rightarrow> bool" where
  "HasPrefix s p = (take (length p) s = p)"

text \<open>\<^verbatim>\<open>strings.TrimRight(s, cutset)\<close> for an ASCII cutset: drops every trailing byte of the cutset.\<close>

definition TrimRight :: "string \<Rightarrow> string \<Rightarrow> string" where
  "TrimRight s cutset = rev (dropWhile (\<lambda>c. c \<in> set cutset) (rev s))"

text \<open>\<^verbatim>\<open>strings.Index(s, sep)\<close>: the position of the first occurrence of \<open>sep\<close>, \<open>None\<close> for -1.\<close>

fun Index :: "string \<Rightarrow> string \<Rightarrow> nat option" where
  "Index [] sep = (if sep = [] then Some 0 else None)"
| "Index (c # cs) sep =
     (if HasPrefix (c # cs) sep then Some 0 else map_option Suc (Index cs sep))"

definition Cut :: "string \<Rightarrow> string \<Rightarrow> string \<times> string \<times> bool" where
  "Cut s sep = (case Index s sep of
       Some i \<Rightarrow> (take i s, drop (i + length sep) s, True)
     | None \<Rightarrow> (s, [], False))"

text \<open>
  \<^verbatim>\<open>strings.SplitN(s, sep, n)\<close> for a non-empty separator and \<open>n \<ge> 0\<close> (both call sites
  pass a literal separator and \<open>n = 2\<close>): at most \<open>n\<close> pieces, the last one the unsplit rest.
\<close>

fun SplitN :: "string \<Rightarrow> string \<Rightarrow> nat \<Rightarrow> string list" where
  "SplitN s sep 0 = []"
| "SplitN s sep (Suc 0) = [s]"
| "SplitN s sep (Suc (Suc n)) = (case Index s sep of
       None \<Rightarrow> [s]
     | Some m \<Rightarrow> take m s # SplitN (drop (m + length sep) s) sep (Suc n))"

text \<open>
  \<^verbatim>\<open>strings.Split(s, sep)\<close> for a non-empty separator: cut at every occurrence, left to
  right. (For the empty separator Go splits into UTF-8 sequences; no call site does that,
  and the model returns \<open>[s]\<close> there.)
\<close>

function Split :: "string \<Rightarrow> string \<Rightarrow> string list" where
  "Split s sep = (if sep = [] \<or> s = [] then [s] else
     (case Index s sep of
        None \<Rightarrow> [s]
      | Some m \<Rightarrow> take m s # Split (drop (m + length sep) s) sep))"
  by pat_completeness auto
termination
  by (relation "measure (\<lambda>(s, sep). length s)") auto

declare Split.simps [simp del]

text \<open>\<^verbatim>\<open>strings.Join(elems, sep)\<close>.\<close>

fun Join :: "string list \<Rightarrow> string \<Rightarrow> string" where
  "Join [] sep = []"
| "Join [x] sep = x"
| "Join (x # y # ys) sep = x @ sep @ Join (y # ys) sep"

text \<open>
  \<^verbatim>\<open>strings.ToLower\<close> on the ASCII letters; bytes from 0x80 on are kept. (Go lowers whole
  runes; the only non-ASCII runes it lowers to an ASCII letter are U+0130 to \<open>i\<close> and U+212A
  to \<open>k\<close>, and neither letter occurs in the header names looked up below.)
\<close>

definition lowerByte :: "char \<Rightarrow> char" where
  "lowerByte c = (let n = (of_char c :: nat) in
     if 65 \<le> n \<and> n \<le> 90 then char_of (n + 32) else c)"

definition ToLower :: "string \<Rightarrow> string" where
  "ToLower s = map lowerByte s"

text \<open>
  \<^verbatim>\<open>strings.TrimSpace\<close>: strips leading and trailing white space as \<^verbatim>\<open>unicode.IsSpace\<close>
  defines it. On bytes: the six ASCII spaces, and the UTF-8 encodings of U+0085, U+00A0,
  U+1680, U+2000..U+200A, U+2028, U+2029, U+202F, U+205F and U+3000.
\<close>

definition asciiSpace :: "char \<Rightarrow> bool" where
  "asciiSpace c = (c \<in> set [CHR 0x09, CHR 0x0A, CHR 0x0B, CHR 0x0C, CHR 0x0D, CHR 0x20])"

definition unicodeSpaces :: "string list" where
  "unicodeSpaces =
     [[CHR 0xC2, CHR 0x85], [CHR 0xC2, CHR 0xA0], [CHR 0xE1, CHR 0x9A, CHR 0x80],
      [CHR 0xE2, CHR 0x80, CHR 0x80], [CHR 0xE2, CHR 0x80, CHR 0x81],
      [CHR 0xE2, CHR 0x80, CHR 0x82], [CHR 0xE2, CHR 0x80, CHR 0x83],
      [CHR 0xE2, CHR 0x80, CHR 0x84], [CHR 0xE2, CHR 0x80, CHR 0x85],
      [CHR 0xE2, CHR 0x80, CHR 0x86], [CHR 0xE2, CHR 0x80, CHR 0x87],
      [CHR 0xE2, CHR 0x80, CHR 0x88], [CHR 0xE2, CHR 0x80, CHR 0x89],
      [CHR 0xE2, CHR 0x80, CHR 0x8A], [CHR 0xE2, CHR 0x80, CHR 0xA8],
      [CHR 0xE2, CHR 0x80, CHR 0xA9], [CHR 0xE2, CHR 0x80, CHR 0xAF],
      [CHR 0xE2, CHR 0x81, CHR 0x9F], [CHR 0xE3, CHR 0x80, CHR 0x80]]"

text \<open>The number of bytes of the white-space rune a string starts with; 0 when it starts with none.\<close>

definition spaceWidth :: "string list \<Rightarrow> string \<Rightarrow> nat" where
  "spaceWidth encs s = (case s of
       [] \<Rightarrow> 0
     | c # _ \<Rightarrow> if asciiSpace c then 1
              else (case find (HasPrefix s) encs of Some e \<Rightarrow> length e | None \<Rightarrow> 0))"

function trimLeading :: "string list \<Rightarrow> string \<Rightarrow> string" where
  "trimLeading encs s =
     (if spaceWidth encs s = 0 \<or> s = [] then s else trimLeading encs (drop (spaceWidth encs s) s))"
  by pat_completeness auto
termination
  by (relation "measure (\<lambda>(encs, s). length s)") auto

declare trimLeading.simps [simp del]

text \<open>Trailing space is found by reading the string backwards against the reversed encodings.\<close>

definition TrimSpace :: "string \<Rightarrow> string" where
  "TrimSpace s =
     rev (trimLeading (map rev unicodeSpaces) (rev (trimLeading unicodeSpaces s)))"

text \<open>
  \<^verbatim>\<open>strconv.Atoi\<close> with a 64-bit \<^verbatim>\<open>int\<close>: an optional sign and at least one decimal digit.
  A syntax error returns 0; a value out of range returns the nearest bound, and does so as
  soon as the digits read overflow 64 bits, before the rest of the string is looked at.
\<close>

datatype NumError = ErrSyntax | ErrRange

definition isDigit :: "char \<Rightarrow> bool" where
  "isDigit c = (48 \<le> (of_char c :: nat) \<and> (of_char c :: nat) \<le> 57)"

definition digitVal :: "char \<Rightarrow> nat" where
  "digitVal c = (of_char c :: nat) - 48"

definition maxUint64 :: nat where
  "maxUint64 = 2 ^ 64 - 1"

fun ParseUint_loop :: "nat \<Rightarrow> string \<Rightarrow> nat \<times> NumError option" where
  "ParseUint_loop n [] = (n, None)"
| "ParseUint_loop n (c # cs) =
     (if \<not> isDigit c then (0, Some ErrSyntax)
      else if n \<ge> maxUint64 div 10 + 1 then (maxUint64, Some ErrRange)
      else if n * 10 + digitVal c > maxUint64 then (maxUint64, Some ErrRange)
      else ParseUint_loop (n * 10 + digitVal c) cs)"

definition ParseUint :: "string \<Rightarrow> nat \<times> NumError option" where
  "ParseUint s = (if s = [] then (0, Some ErrSyntax) else ParseUint_loop 0 s)"

definition ParseInt :: "string \<Rightarrow> int \<times> NumError option" where
  "ParseInt s =
     (if s = [] then (0, Some ErrSyntax)
      else
        let neg = (hd s = CHR ''-'');
            s1 = (if hd s = CHR ''+'' \<or> hd s = CHR ''-'' then tl s else s);
            (un, err) = ParseUint s1
        in if err = Some ErrSyntax then (0, err)
           else if \<not> neg \<and> un \<ge> 2 ^ 63 then (2 ^ 63 - 1, Some ErrRange)
           else if neg \<and> un > 2 ^ 63 then (- (2 ^ 63), Some ErrRange)
           else (if neg then - int un else int un, None))"

definition Atoi :: "string \<Rightarrow> int \<times> NumError option" where
  "Atoi s = ParseInt s"

text \<open>\<^verbatim>\<open>%d\<close> of \<^verbatim>\<open>fmt.Sprintf\<close>: decimal digits, with a minus sign for a negative number.\<close>

fun utoa :: "nat \<Rightarrow> string" where
  "utoa n = (if n < 10 then [char_of (48 + n)] else utoa (n div 10) @ [char_of (48 + n mod 10)])"

declare utoa.simps [simp del]

definition Itoa :: "int \<Rightarrow> string" where
  "Itoa i = (if i < 0 then CHR ''-'' # utoa (nat (- i)) else utoa (nat i))"

section \<open>The connection\<close>

text \<open>
  Errors are values. \<open>Errorf\<close> is an error made by \<^verbatim>\<open>fmt.Errorf\<close> from a text alone,
  \<open>Wrap p e\<close> is \<^verbatim>\<open>fmt.Errorf(p + "%w", e)\<close>; the others come from the transport.
\<close>

datatype error = EOF | ErrWrite | ErrDial | ErrTLS | Errorf string | Wrap string error

fun Error :: "error \<Rightarrow> string" where
  "Error EOF = ''EOF''"
| "Error ErrWrite = ''write failed''"
| "Error ErrDial = ''dial failed''"
| "Error ErrTLS = ''tls failed''"
| "Error (Errorf s) = s"
| "Error (Wrap p e) = p @ Error e"

text \<open>
  One entry of the write log: \<open>Cmd\<close> for a write made by \<^verbatim>\<open>cmd\<close> (a protocol command),
  \<open>Data\<close> for a write made by the DATA phase of \<^verbatim>\<open>Send\<close>. The text is the bytes written.
\<close>

datatype wr = Cmd string | Data string

text \<open>
  \<^verbatim>\<open>conn\<close> with its \<^verbatim>\<open>bufio.Reader\<close>, seen from the client: \<open>incoming\<close> are the bytes the
  server sends from now on, \<open>writes\<close> every write call made so far in call order (also a
  failing one), \<open>wleft\<close> how many more writes the transport accepts (\<open>None\<close>: all of
  them), \<open>tls\<close> whether the stream is encrypted, \<open>closed\<close> whether \<^verbatim>\<open>Close\<close> was called.
  The protocols are strictly request/response, so every behaviour of a server towards this
  client is some \<open>incoming\<close>; a stream that ends is a server that hangs up. A server that
  stays silent for ever blocks the client and is outside this model, as is the read-ahead
  of the buffered reader across the TLS upgrade.
\<close>

record conn =
  incoming :: string
  writes :: "wr list"
  wleft :: "nat option"
  tls :: bool
  closed :: bool

text \<open>\<^verbatim>\<open>fmt.Fprintf(c.conn, ...)\<close> with the formatted bytes \<open>w\<close>.\<close>

definition Fprintf :: "wr \<Rightarrow> conn \<Rightarrow> error option \<times> conn" where
  "Fprintf w c = (case wleft c of
       None \<Rightarrow> (None, c\<lparr>writes := writes c @ [w]\<rparr>)
     | Some 0 \<Rightarrow> (Some ErrWrite, c\<lparr>writes := writes c @ [w]\<rparr>)
     | Some (Suc n) \<Rightarrow> (None, c\<lparr>writes := writes c @ [w], wleft := Some n\<rparr>))"

text \<open>
  \<^verbatim>\<open>c.reader.ReadString('\n')\<close>: the bytes up to and including the first line feed; an error
  (with the bytes that were left) when the stream ends before one.
\<close>

definition ReadString :: "conn \<Rightarrow> (string \<times> error option) \<times> conn" where
  "ReadString c =
     (let s = incoming c in
      if LF \<in> set s
      then ((takeWhile (\<lambda>x. x \<noteq> LF) s @ [LF], None),
            c\<lparr>incoming := tl (dropWhile (\<lambda>x. x \<noteq> LF) s)\<rparr>)
      else ((s, Some EOF), c\<lparr>incoming := []\<rparr>))"

definition Close_conn :: "conn \<Rightarrow> conn" where
  "Close_conn c = c\<lparr>closed := True\<rparr>"

section \<open>The POP3 client\<close>

record POP3Config =
  Host_pop3 :: string
  Port_pop3 :: int
  User_pop3 :: string
  Pass_pop3 :: string
  UseSSL_pop3 :: bool

record Message =
  ID :: int
  Size :: int
  From :: string
  Subject :: string
  Date :: string
  Body :: string

definition readLine :: "conn \<Rightarrow> (error + string) \<times> conn" where
  "readLine c = (case ReadString c of
       ((line, Some e), c') \<Rightarrow> (Inl e, c')
     | ((line, None), c') \<Rightarrow> (Inr (TrimRight line CRLF), c'))"

definition POP3_readResponse :: "conn \<Rightarrow> (error + string) \<times> conn" where
  "POP3_readResponse c = (case readLine c of
       (Inl e, c') \<Rightarrow> (Inl e, c')
     | (Inr line, c') \<Rightarrow>
         if HasPrefix line ''-ERR'' then (Inl (Errorf (''pop3: '' @ line)), c')
         else (Inr line, c'))"

definition POP3_cmd :: "string \<Rightarrow> conn \<Rightarrow> (error + string) \<times> conn" where
  "POP3_cmd command c = (case Fprintf (Cmd (command @ CRLF)) c of
       (Some e, c') \<Rightarrow> (Inl e, c')
     | (None, c') \<Rightarrow> POP3_readResponse c')"

text \<open>The unstuffing step of \<^verbatim>\<open>readDot\<close> (lines 398 to 400).\<close>

definition dotUnstuff :: "string \<Rightarrow> string" where
  "dotUnstuff line = (if HasPrefix line ''..'' then drop 1 line else line)"

text \<open>The loop of \<^verbatim>\<open>readDot\<close>, with the lines collected so far.\<close>

function readDot_loop :: "string list \<Rightarrow> conn \<Rightarrow> (error + string list) \<times> conn" where
  "readDot_loop lines c = (case readLine c of
       (Inl e, c') \<Rightarrow> (Inl e, c')
     | (Inr line, c') \<Rightarrow>
         if line = ''.'' then (Inr lines, c')
         else readDot_loop (lines @ [dotUnstuff line]) c')"
  by pat_completeness auto
termination
proof (relation "measure (\<lambda>(lines, c). length (incoming c))")
  show "wf (measure (\<lambda>(lines, c). length (incoming c)))"
    by simp
next
  fix lines :: "string list" and c x1 c' line
  assume r: "(x1, c') = readLine c" and x: "x1 = Inr line"
  have "LF \<in> set (incoming c)" and c': "incoming c' = tl (dropWhile (\<lambda>x. x \<noteq> LF) (incoming c))"
    using r x by (auto simp: readLine_def ReadString_def Let_def split: if_splits)
  then have "dropWhile (\<lambda>x. x \<noteq> LF) (incoming c) \<noteq> []"
    by simp
  then have "length (incoming c') < length (dropWhile (\<lambda>x. x \<noteq> LF) (incoming c))"
    using c' by (cases "dropWhile (\<lambda>x. x \<noteq> LF) (incoming c)") auto
  also have "\<dots> \<le> length (incoming c)"
    by (rule length_dropWhile_le)
  finally show "((lines @ [dotUnstuff line], c'), (lines, c)) \<in> measure (\<lambda>(lines, c). length (incoming c))"
    by simp
qed

declare readDot_loop.simps [simp del]

definition readDot :: "conn \<Rightarrow> (error + string list) \<times> conn" where
  "readDot c = readDot_loop [] c"

text \<open>The loop of \<^verbatim>\<open>List\<close> over the lines of the block, with the messages collected so far.\<close>

fun List_loop :: "string list \<Rightarrow> Message list \<Rightarrow> Message list" where
  "List_loop [] msgs = msgs"
| "List_loop (line # rest) msgs =
     (let parts = SplitN (TrimSpace line) '' '' 2 in
      if length parts \<noteq> 2 then List_loop rest msgs
      else
        let id = fst (Atoi (parts ! 0));
            size = fst (Atoi (parts ! 1))
        in List_loop rest
             (msgs @ [\<lparr>ID = id, Size = size, From = [], Subject = [], Date = [], Body = []\<rparr>]))"

definition POP3_List :: "conn \<Rightarrow> (error + Message list) \<times> conn" where
  "POP3_List c = (case POP3_cmd ''LIST'' c of
       (Inl e, c1) \<Rightarrow> (Inl e, c1)
     | (Inr _, c1) \<Rightarrow>
         (case readDot c1 of
            (Inl e, c2) \<Rightarrow> (Inl e, c2)
          | (Inr lines, c2) \<Rightarrow> (Inr (List_loop lines []), c2)))"

text \<open>
  \<^verbatim>\<open>net.DialTimeout\<close> and \<^verbatim>\<open>tls.Dial\<close>: given whether TLS is asked for and the address, the
  network hands out a connection or an error.
\<close>

type_synonym dialer = "bool \<Rightarrow> string \<Rightarrow> error + conn"

definition POP3_Connect :: "dialer \<Rightarrow> POP3Config \<Rightarrow> error option \<times> conn option" where
  "POP3_Connect dial cfg =
     (let addr = Host_pop3 cfg @ '':'' @ Itoa (Port_pop3 cfg) in
      case dial (UseSSL_pop3 cfg) addr of
        Inl err \<Rightarrow> (Some (Wrap (''pop3 connect '' @ addr @ '': '') err), None)
      | Inr c \<Rightarrow>
          (case POP3_readResponse (c\<lparr>tls := UseSSL_pop3 cfg\<rparr>) of
             (Inl err, c') \<Rightarrow> (Some (Wrap ''pop3 greeting: '' err), Some (Close_conn c'))
           | (Inr _, c') \<Rightarrow> (None, Some c')))"

text \<open>A Go map read with \<^verbatim>\<open>h[key]\<close>: the empty string for a missing key.\<close>

definition hget :: "(string \<rightharpoonup> string) \<Rightarrow> string \<Rightarrow> string" where
  "hget h k = (case h k of None \<Rightarrow> [] | Some v \<Rightarrow> v)"

text \<open>The loop of \<^verbatim>\<open>parseHeaders\<close> over the lines of the raw block, with the map built so far.\<close>

fun parseHeaders_loop :: "string list \<Rightarrow> (string \<rightharpoonup> string) \<Rightarrow> (string \<rightharpoonup> string)" where
  "parseHeaders_loop [] h = h"
| "parseHeaders_loop (line # rest) h =
     (if line = [] then h
      else if HasPrefix line '' '' \<or> HasPrefix line [CHR 0x09] then parseHeaders_loop rest h
      else (case Cut line '': '' of
              (k, v, ok) \<Rightarrow>
                if ok then parseHeaders_loop rest (h(ToLower k \<mapsto> v))
                else parseHeaders_loop rest h))"

definition parseHeaders :: "string \<Rightarrow> (string \<rightharpoonup> string)" where
  "parseHeaders raw = parseHeaders_loop (Split raw CRLF) Map.empty"

definition POP3_Top :: "int \<Rightarrow> int \<Rightarrow> conn \<Rightarrow> (error + Message) \<times> conn" where
  "POP3_Top msg_id bodyLines c =
     (case POP3_cmd (''TOP '' @ Itoa msg_id @ '' '' @ Itoa bodyLines) c of
        (Inl e, c1) \<Rightarrow> (Inl e, c1)
      | (Inr _, c1) \<Rightarrow>
          (case readDot c1 of
             (Inl e, c2) \<Rightarrow> (Inl e, c2)
           | (Inr lines, c2) \<Rightarrow>
               (let content = Join lines CRLF;
                    h = parseHeaders content;
                    msg = \<lparr>ID = msg_id, Size = 0, From = hget h ''from'',
                           Subject = hget h ''subject'', Date = hget h ''date'', Body = []\<rparr>
                in (Inr (if bodyLines > 0
                         then (case SplitN content (CRLF @ CRLF) 2 of
                                 [a, b] \<Rightarrow> msg\<lparr>Body := b\<rparr>
                               | _ \<Rightarrow> msg)
                         else msg), c2))))"

section \<open>The SMTP client\<close>

record SMTPConfig =
  Host :: string
  Port :: int
  User :: string
  Pass :: string
  UseSSL :: bool

record SendRequest =
  From_req :: string
  To :: "string list"
  Subject_req :: string
  Body_req :: string

text \<open>\<^verbatim>\<open>base64.StdEncoding.EncodeToString\<close>.\<close>

definition encodeStd :: string where
  "encodeStd = ''ABCDEFGHIJKLMNOPQRSTUVWXYZabcdefghijklmnopqrstuvwxyz0123456789+/''"

fun encodeBytes :: "nat list \<Rightarrow> string" where
  "encodeBytes (a # b # c # rest) =
     (let v = a * 65536 + b * 256 + c in
      [encodeStd ! (v div 262144 mod 64), encodeStd ! (v div 4096 mod 64),
       encodeStd ! (v div 64 mod 64), encodeStd ! (v mod 64)] @ encodeBytes rest)"
| "encodeBytes [a, b] =
     (let v = a * 65536 + b * 256 in
      [encodeStd ! (v div 262144 mod 64), encodeStd ! (v div 4096 mod 64),
       encodeStd ! (v div 64 mod 64), CHR ''=''])"
| "encodeBytes [a] =
     (let v = a * 65536 in
      [encodeStd ! (v div 262144 mod 64), encodeStd ! (v div 4096 mod 64), CHR ''='', CHR ''=''])"
| "encodeBytes [] = []"

definition EncodeToString :: "string \<Rightarrow> string" where
  "EncodeToString s = encodeBytes (map of_char s)"

text \<open>
  The loop of \<^verbatim>\<open>readResponse\<close>: lines are read until one is shorter than four bytes or has
  no \<^verbatim>\<open>-\<close> as its fourth byte; that line is the result.
\<close>

function SMTP_readResponse_loop :: "conn \<Rightarrow> (error + string) \<times> conn" where
  "SMTP_readResponse_loop c = (case ReadString c of
       ((line, Some err), c') \<Rightarrow> (Inl err, c')
     | ((line, None), c') \<Rightarrow>
         if length (TrimRight line CRLF) < 4 \<or> TrimRight line CRLF ! 3 \<noteq> CHR ''-''
         then (Inr (TrimRight line CRLF), c')
         else SMTP_readResponse_loop c')"
  by pat_completeness auto
termination
proof (relation "measure (\<lambda>c. length (incoming c))")
  show "wf (measure (\<lambda>c. length (incoming c)))"
    by simp
next
  fix c x c' line e
  assume r: "(x, c') = ReadString c" and x: "(line, e) = x" and e: "e = None"
  have "LF \<in> set (incoming c)" and c': "incoming c' = tl (dropWhile (\<lambda>x. x \<noteq> LF) (incoming c))"
    using r x e by (auto simp: ReadString_def Let_def split: if_splits)
  then have "dropWhile (\<lambda>x. x \<noteq> LF) (incoming c) \<noteq> []"
    by simp
  then have "length (incoming c') < length (dropWhile (\<lambda>x. x \<noteq> LF) (incoming c))"
    using c' by (cases "dropWhile (\<lambda>x. x \<noteq> LF) (incoming c)") auto
  also have "\<dots> \<le> length (incoming c)"
    by (rule length_dropWhile_le)
  finally show "(c', c) \<in> measure (\<lambda>c. length (incoming c))"
    by simp
qed

declare SMTP_readResponse_loop.simps [simp del]

definition SMTP_readResponse :: "conn \<Rightarrow> (string \<times> error option) \<times> conn" where
  "SMTP_readResponse c = (case SMTP_readResponse_loop c of
       (Inl err, c') \<Rightarrow> (([], Some err), c')
     | (Inr l, c') \<Rightarrow>
         if length l \<ge> 1 \<and> (l ! 0 = CHR ''4'' \<or> l ! 0 = CHR ''5'')
         then ((l, Some (Errorf (''smtp: '' @ l))), c')
         else ((l, None), c'))"

definition SMTP_cmd :: "string \<Rightarrow> conn \<Rightarrow> (string \<times> error option) \<times> conn" where
  "SMTP_cmd command c = (case Fprintf (Cmd (command @ CRLF)) c of
       (Some err, c') \<Rightarrow> (([], Some err), c')
     | (None, c') \<Rightarrow> SMTP_readResponse c')"

definition SMTP_Connect :: "dialer \<Rightarrow> SMTPConfig \<Rightarrow> error option \<times> conn option" where
  "SMTP_Connect dial cfg =
     (let addr = Host cfg @ '':'' @ Itoa (Port cfg) in
      case dial (UseSSL cfg) addr of
        Inl err \<Rightarrow> (Some (Wrap (''smtp connect '' @ addr @ '': '') err), None)
      | Inr c \<Rightarrow>
          (case SMTP_readResponse (c\<lparr>tls := UseSSL cfg\<rparr>) of
             ((_, Some err), c') \<Rightarrow> (Some (Wrap ''smtp greeting: '' err), Some (Close_conn c'))
           | ((_, None), c') \<Rightarrow> (None, Some c')))"

text \<open>The first statement of \<^verbatim>\<open>Handshake\<close> (lines 80 to 84): EHLO, and HELO when EHLO fails.\<close>

definition hello :: "conn \<Rightarrow> error option \<times> conn" where
  "hello c = (case SMTP_cmd ''EHLO mulamail'' c of
       ((_, None), c1) \<Rightarrow> (None, c1)
     | ((_, Some _), c1) \<Rightarrow>
         (case SMTP_cmd ''HELO mulamail'' c1 of
            ((_, Some err), c2) \<Rightarrow> (Some (Wrap ''smtp EHLO/HELO: '' err), c2)
          | ((_, None), c2) \<Rightarrow> (None, c2)))"

text \<open>
  \<^verbatim>\<open>Handshake\<close>. The outcome \<open>hs\<close> of \<^verbatim>\<open>tlsConn.Handshake()\<close> is given from outside; after a
  successful one the connection is the TLS one and EHLO is sent again, its result dropped.
\<close>

definition Handshake :: "error option \<Rightarrow> SMTPConfig \<Rightarrow> conn \<Rightarrow> error option \<times> conn" where
  "Handshake hs cfg c = (case hello c of
       (Some err, c1) \<Rightarrow> (Some err, c1)
     | (None, c1) \<Rightarrow>
         if \<not> UseSSL cfg then
           (case SMTP_cmd ''STARTTLS'' c1 of
              ((resp, err), c2) \<Rightarrow>
                if err = None \<and> HasPrefix resp ''220'' then
                  (case hs of
                     Some e \<Rightarrow> (Some (Wrap ''smtp TLS handshake: '' e), c2)
                   | None \<Rightarrow> (None, snd (SMTP_cmd ''EHLO mulamail'' (c2\<lparr>tls := True\<rparr>))))
                else (None, c2))
         else (None, c1))"

definition authLogin :: "SMTPConfig \<Rightarrow> conn \<Rightarrow> error option \<times> conn" where
  "authLogin cfg c = (case SMTP_cmd ''AUTH LOGIN'' c of
       ((_, Some err), c1) \<Rightarrow> (Some (Wrap ''smtp AUTH LOGIN init: '' err), c1)
     | ((_, None), c1) \<Rightarrow>
         (case SMTP_cmd (EncodeToString (User cfg)) c1 of
            ((_, Some err), c2) \<Rightarrow> (Some (Wrap ''smtp AUTH LOGIN user: '' err), c2)
          | ((_, None), c2) \<Rightarrow>
              (case SMTP_cmd (EncodeToString (Pass cfg)) c2 of
                 ((_, Some err), c3) \<Rightarrow> (Some (Wrap ''smtp AUTH LOGIN pass: '' err), c3)
               | ((_, None), c3) \<Rightarrow> (None, c3))))"

definition SMTP_Auth :: "SMTPConfig \<Rightarrow> conn \<Rightarrow> error option \<times> conn" where
  "SMTP_Auth cfg c =
     (let creds = CHR 0x00 # User cfg @ CHR 0x00 # Pass cfg;
          encoded = EncodeToString creds
      in case SMTP_cmd (''AUTH PLAIN '' @ encoded) c of
           ((resp, err), c1) \<Rightarrow>
             if err = None \<and> HasPrefix resp ''235'' then (None, c1) else authLogin cfg c1)"

text \<open>The loop of \<^verbatim>\<open>Send\<close> over the recipients (lines 131 to 135).\<close>

fun Send_rcpt :: "string list \<Rightarrow> conn \<Rightarrow> error option \<times> conn" where
  "Send_rcpt [] c = (None, c)"
| "Send_rcpt (to # rest) c = (case SMTP_cmd (''RCPT TO:<'' @ to @ ''>'') c of
       ((_, Some err), c') \<Rightarrow> (Some (Wrap (''smtp RCPT TO '' @ to @ '': '') err), c')
     | ((_, None), c') \<Rightarrow> Send_rcpt rest c')"

text \<open>The stuffing step of \<^verbatim>\<open>Send\<close> (lines 153 to 155).\<close>

definition dotStuff :: "string \<Rightarrow> string" where
  "dotStuff line = (if HasPrefix line ''.'' then ''.'' @ line else line)"

text \<open>The loop of \<^verbatim>\<open>Send\<close> that writes the lines of the message (lines 151 to 159).\<close>

fun Send_lines :: "string list \<Rightarrow> conn \<Rightarrow> error option \<times> conn" where
  "Send_lines [] c = (None, c)"
| "Send_lines (line # rest) c =
     (case Fprintf (Data (dotStuff (TrimRight line [CR]) @ CRLF)) c of
        (Some err, c') \<Rightarrow> (Some err, c')
      | (None, c') \<Rightarrow> Send_lines rest c')"

text \<open>The message \<^verbatim>\<open>Send\<close> builds (lines 141 to 148); \<open>now\<close> is the formatted current time.\<close>

definition Send_msg :: "string \<Rightarrow> SendRequest \<Rightarrow> string" where
  "Send_msg now req =
     ''From: '' @ From_req req @ CRLF @
     ''To: '' @ Join (To req) '', '' @ CRLF @
     ''Subject: '' @ Subject_req req @ CRLF @
     ''Date: '' @ now @ CRLF @
     ''MIME-Version: 1.0'' @ CRLF @
     ''Content-Type: text/plain; charset=UTF-8'' @ CRLF @ CRLF @
     Body_req req @ CRLF"

text \<open>\<^verbatim>\<open>Send\<close> from the message on (lines 140 to 167): the DATA phase.\<close>

definition Send_data :: "string \<Rightarrow> SendRequest \<Rightarrow> conn \<Rightarrow> error option \<times> conn" where
  "Send_data now req c =
     (case Send_lines (Split (Send_msg now req) [LF]) c of
        (Some err, c1) \<Rightarrow> (Some err, c1)
      | (None, c1) \<Rightarrow>
          (case Fprintf (Data (''.'' @ CRLF)) c1 of
             (Some err, c2) \<Rightarrow> (Some err, c2)
           | (None, c2) \<Rightarrow>
               (case SMTP_readResponse c2 of
                  ((_, Some err), c3) \<Rightarrow> (Some (Wrap ''smtp DATA end: '' err), c3)
                | ((_, None), c3) \<Rightarrow> (None, c3))))"

definition Send :: "string \<Rightarrow> SendRequest \<Rightarrow> conn \<Rightarrow> error option \<times> conn" where
  "Send now req c = (case SMTP_cmd (''MAIL FROM:<'' @ From_req req @ ''>'') c of
       ((_, Some err), c1) \<Rightarrow> (Some (Wrap ''smtp MAIL FROM: '' err), c1)
     | ((_, None), c1) \<Rightarrow>
         (case Send_rcpt (To req) c1 of
            (Some err, c2) \<Rightarrow> (Some err, c2)
          | (None, c2) \<Rightarrow>
              (case SMTP_cmd ''DATA'' c2 of
                 ((_, Some err), c3) \<Rightarrow> (Some (Wrap ''smtp DATA: '' err), c3)
               | ((_, None), c3) \<Rightarrow> Send_data now req c3)))"

section \<open>Vocabulary of the statements\<close>

text \<open>
  A line as a server puts it on the wire before the CRLF: no line feed inside and no
  carriage return at its end, so that \<^verbatim>\<open>readLine\<close> hands it back unchanged.
\<close>

definition wireLine :: "string \<Rightarrow> bool" where
  "wireLine l = (LF \<notin> set l \<and> (l = [] \<or> last l \<noteq> CR))"

text \<open>The bytes of a sequence of lines, each followed by CRLF.\<close>

definition wire :: "string list \<Rightarrow> string" where
  "wire ls = concat (map (\<lambda>l. l @ CRLF) ls)"

text \<open>An ASCII byte that is not white space.\<close>

definition plainByte :: "char \<Rightarrow> bool" where
  "plainByte c = ((of_char c :: nat) < 128 \<and> \<not> asciiSpace c)"

text \<open>
  What \<^verbatim>\<open>List\<close> makes of one line of the block: the line is trimmed; when a space is left
  in it, the text before the first space and the text after it are the two fields, and
  each field is read by \<^verbatim>\<open>Atoi\<close> with the error dropped.
\<close>

definition twoFields :: "string \<Rightarrow> (string \<times> string) option" where
  "twoFields line =
     (let t = TrimSpace line in
      if CHR '' '' \<in> set t
      then Some (takeWhile (\<lambda>c. c \<noteq> CHR '' '') t, tl (dropWhile (\<lambda>c. c \<noteq> CHR '' '') t))
      else None)"

definition entry :: "string \<Rightarrow> Message option" where
  "entry line = map_option
     (\<lambda>(a, b). \<lparr>ID = fst (Atoi a), Size = fst (Atoi b),
                From = [], Subject = [], Date = [], Body = []\<rparr>)
     (twoFields line)"

text \<open>
  The shape \<^verbatim>\<open>"<id> <size>"\<close> in the words of the specification: a decimal number, one
  space, a decimal number.
\<close>

definition spec_entry_shape :: "string \<Rightarrow> bool" where
  "spec_entry_shape line =
     (let a = takeWhile isDigit line; r = dropWhile isDigit line in
      a \<noteq> [] \<and> (case r of [] \<Rightarrow> False
                 | c # b \<Rightarrow> c = CHR '' '' \<and> b \<noteq> [] \<and> list_all isDigit b))"

text \<open>The number a string of decimal digits denotes, continuing from \<open>m\<close>.\<close>

fun dec :: "nat \<Rightarrow> string \<Rightarrow> nat" where
  "dec m [] = m"
| "dec m (c # cs) = dec (m * 10 + digitVal c) cs"

text \<open>
  The number a field of a line of \<^verbatim>\<open>LIST\<close> counts as, in words. After an optional sign come
  the leading digits. When they alone exceed 64 bits the field counts as the nearest bound
  of \<^verbatim>\<open>int\<close>, whatever follows them; else a field that is not all digits, or has no digit,
  counts as 0; else the field counts as its value, brought into the range of \<^verbatim>\<open>int\<close>.
\<close>

definition fieldValue :: "string \<Rightarrow> int" where
  "fieldValue f =
     (let neg = HasPrefix f ''-'';
          body = (if HasPrefix f ''+'' \<or> HasPrefix f ''-'' then tl f else f);
          ds = takeWhile isDigit body
      in if 2 ^ 64 \<le> dec 0 ds then (if neg then - (2 ^ 63) else 2 ^ 63 - 1)
         else if ds = [] \<or> ds \<noteq> body then 0
         else if neg then max (- (2 ^ 63)) (- int (dec 0 ds))
         else min (2 ^ 63 - 1) (int (dec 0 ds)))"

text \<open>A connection on which nothing was written yet, with the given bytes to come.\<close>

definition fresh :: "string \<Rightarrow> conn" where
  "fresh s = \<lparr>incoming = s, writes = [], wleft = None, tls = False, closed = False\<rparr>"

text \<open>A reply line that announces another one: its fourth byte is \<^verbatim>\<open>-\<close>.\<close>

definition continuation :: "string \<Rightarrow> bool" where
  "continuation l = (4 \<le> length l \<and> l ! 3 = CHR ''-'')"

text \<open>A final reply line whose first byte is 4 or 5.\<close>

definition rejected :: "string \<Rightarrow> bool" where
  "rejected l = (case l of [] \<Rightarrow> False | d # _ \<Rightarrow> d = CHR ''4'' \<or> d = CHR ''5'')"

text \<open>
  A status in the range 200 to 299, in the words of the specification: the line starts
  with three digits, the first of them 2.
\<close>

definition spec_status_2xx :: "string \<Rightarrow> bool" where
  "spec_status_2xx l = (3 \<le> length l \<and> list_all isDigit (take 3 l) \<and> hd l = CHR ''2'')"

text \<open>The writes made between two states of a connection.\<close>

definition issued :: "conn \<Rightarrow> conn \<Rightarrow> wr list" where
  "issued c c' = drop (length (writes c)) (writes c')"

text \<open>A POP3 account and an SMTP account to run the examples on.\<close>

definition pop3_example :: POP3Config where
  "pop3_example = \<lparr>Host_pop3 = ''pop.example.org'', Port_pop3 = 110, User_pop3 = ''bob'',
     Pass_pop3 = ''x'', UseSSL_pop3 = False\<rparr>"

definition smtp_example :: SMTPConfig where
  "smtp_example = \<lparr>Host = ''smtp.example.org'', Port = 587, User = ''user'',
     Pass = ''pass'', UseSSL = False\<rparr>"

text \<open>A reply line that ends a reply and does not start with 4 or 5.\<close>

definition accepted :: "string \<Rightarrow> bool" where
  "accepted l = (wireLine l \<and> \<not> continuation l \<and> \<not> rejected l)"

text \<open>The first command of \<^verbatim>\<open>Auth\<close> for an account.\<close>

definition authPlain :: "SMTPConfig \<Rightarrow> string" where
  "authPlain cfg = ''AUTH PLAIN '' @ EncodeToString (CHR 0x00 # User cfg @ CHR 0x00 # Pass cfg)"

text \<open>The writes of \<^verbatim>\<open>Send\<close>.\<close>

definition mailFrom :: "SendRequest \<Rightarrow> wr" where
  "mailFrom req = Cmd (''MAIL FROM:<'' @ From_req req @ ''>'' @ CRLF)"

definition rcptTo :: "string \<Rightarrow> wr" where
  "rcptTo to = Cmd (''RCPT TO:<'' @ to @ ''>'' @ CRLF)"

definition dataLine :: "string \<Rightarrow> wr" where
  "dataLine line = Data (dotStuff (TrimRight line [CR]) @ CRLF)"

text \<open>Two requests to run the examples on: one with three recipients, one with none.\<close>

definition req_three :: SendRequest where
  "req_three = \<lparr>From_req = ''a@x'', To = [''b@y'', ''c@z'', ''d@w''], Subject_req = ''hi'',
     Body_req = ''hello''\<rparr>"

definition now_example :: string where
  "now_example = ''Mon, 02 Jan 2006 15:04:05 -0700''"

definition req_none :: SendRequest where
  "req_none = \<lparr>From_req = ''a@x'', To = [], Subject_req = ''hi'', Body_req = ''hello''\<rparr>"

text \<open>
  The bytes of a write, and the bytes of a sequence of writes as they follow one another on
  the wire.
\<close>

fun bytes :: "wr \<Rightarrow> string" where
  "bytes (Cmd s) = s"
| "bytes (Data s) = s"

definition sent :: "wr list \<Rightarrow> string" where
  "sent ws = concat (map bytes ws)"

text \<open>
  The lines a peer has received in full from a stream of bytes. A line ends at a line feed,
  and the carriage return before that line feed is not part of the line; so a line that
  ends with CRLF and a line that ends with a bare line feed are both lines. What follows
  the last line feed is no line yet.
\<close>

definition chomp :: "string \<Rightarrow> string" where
  "chomp l = (if l \<noteq> [] \<and> last l = CR then butlast l else l)"

definition received :: "string \<Rightarrow> string list" where
  "received s = map chomp (butlast (Split s [LF]))"

text \<open>
  The lines a server takes for commands among the lines it receives. It reads every line as
  a command, but for the lines of a message: after the line \<^verbatim>\<open>DATA\<close> it reads the lines that
  follow as the message, up to the line that is a lone dot. The flag tells whether a message
  is being received. (A server that refuses \<^verbatim>\<open>DATA\<close> goes on reading commands; \<^verbatim>\<open>Send\<close>
  writes nothing more once it has read a refusal of \<^verbatim>\<open>DATA\<close>.)
\<close>

fun commands :: "bool \<Rightarrow> string list \<Rightarrow> string list" where
  "commands m [] = []"
| "commands m (l # ls) =
     (if m then (if l = ''.'' then commands False ls else commands True ls)
      else l # commands (l = ''DATA'') ls)"

text \<open>
  The commands a server receives from the writes made between two states of a connection. A
  write that the transport failed is the last one of a call and counts as sent.
\<close>

definition commandsReceived :: "conn \<Rightarrow> conn \<Rightarrow> string list" where
  "commandsReceived c c' = commands False (received (sent (issued c c')))"

text \<open>The command lines of \<^verbatim>\<open>Send\<close>, and what kind a command line is.\<close>

definition mailFromLine :: "SendRequest \<Rightarrow> string" where
  "mailFromLine req = ''MAIL FROM:<'' @ From_req req @ ''>''"

definition rcptLine :: "string \<Rightarrow> string" where
  "rcptLine to = ''RCPT TO:<'' @ to @ ''>''"

definition isMailFromLine :: "string \<Rightarrow> bool" where
  "isMailFromLine l = HasPrefix l ''MAIL FROM:''"

definition isRcptLine :: "string \<Rightarrow> bool" where
  "isRcptLine l = HasPrefix l ''RCPT TO:''"

text \<open>
  All the writes of a call of \<^verbatim>\<open>Send\<close> in which nothing fails: \<^verbatim>\<open>MAIL FROM\<close>, one \<^verbatim>\<open>RCPT TO\<close>
  for each recipient, \<^verbatim>\<open>DATA\<close>, the lines of the message, the lone dot.
\<close>

definition script :: "string \<Rightarrow> SendRequest \<Rightarrow> wr list" where
  "script now req =
     mailFrom req # map rcptTo (To req) @ Cmd (''DATA'' @ CRLF)
       # map dataLine (Split (Send_msg now req) [LF]) @ [Data (''.'' @ CRLF)]"

text \<open>The same as lines: the lines of the message as they are written, and all the lines.\<close>

definition messageLines :: "string \<Rightarrow> SendRequest \<Rightarrow> string list" where
  "messageLines now req =
     map (\<lambda>l. dotStuff (TrimRight l [CR])) (Split (Send_msg now req) [LF])"

definition scriptLines :: "string \<Rightarrow> SendRequest \<Rightarrow> string list" where
  "scriptLines now req =
     mailFromLine req # map rcptLine (To req) @ ''DATA'' # messageLines now req @ [''.'']"

text \<open>An address without a line break in it: it holds no carriage return and no line feed.\<close>

definition noBreak :: "string \<Rightarrow> bool" where
  "noBreak s = (CR \<notin> set s \<and> LF \<notin> set s)"

text \<open>
  Two requests with a line break inside an address: a recipient that carries a second
  \<^verbatim>\<open>MAIL FROM\<close> line, and a sender that carries an \<^verbatim>\<open>RCPT TO\<close> line while the list of
  recipients is empty.
\<close>

definition req_second_mail :: SendRequest where
  "req_second_mail = \<lparr>From_req = ''a@x'', To = [''b@y>'' @ CRLF @ ''MAIL FROM:<m@z''],
     Subject_req = ''hi'', Body_req = ''hello''\<rparr>"

definition req_hidden_rcpt :: SendRequest where
  "req_hidden_rcpt = \<lparr>From_req = ''a@x>'' @ CRLF @ ''RCPT TO:<v@y'', To = [],
     Subject_req = ''hi'', Body_req = ''hello''\<rparr>"

text \<open>A folded continuation line: it starts with a space or a tab.\<close>

definition folded :: "string \<Rightarrow> bool" where
  "folded l = (HasPrefix l '' '' \<or> HasPrefix l [CHR 0x09])"

text \<open>
  The header a line gives: none for a folded line and for a line without \<^verbatim>\<open>": "\<close>; else
  the text before the first \<^verbatim>\<open>": "\<close> in lower case as its name, and the text after it as
  its value.
\<close>

definition header_of :: "string \<Rightarrow> (string \<times> string) option" where
  "header_of l =
     (if folded l then None
      else (case Index l '': '' of
              None \<Rightarrow> None
            | Some i \<Rightarrow> Some (ToLower (take i l), drop (i + 2) l)))"

text \<open>The value of the last header of the given name among the lines; empty when there is none.\<close>

definition header_value :: "string \<Rightarrow> string list \<Rightarrow> string" where
  "header_value name ls =
     (case find (\<lambda>kv. fst kv = name) (rev (List.map_filter header_of ls)) of
        None \<Rightarrow> []
      | Some kv \<Rightarrow> snd kv)"

text \<open>A block to run the example on: five header lines, an empty line, two more lines.\<close>

definition top_headers :: "string list" where
  "top_headers = [''FROM: alice'', ''subject: hi'', '' Date: folded'', ''Date:nospace'',
     ''X-Other: 1'']"

definition top_body :: "string list" where
  "top_body = [''From: mallory'', ''Date: in the body'']"

text \<open>The three fields of the result of \<^verbatim>\<open>Top\<close> that are read from the headers.\<close>

definition header_fields :: "error + Message \<Rightarrow> (string \<times> string \<times> string) option" where
  "header_fields r = (case r of Inl e \<Rightarrow> None | Inr m \<Rightarrow> Some (From m, Subject m, Date m))"

section \<open>Strings and numbers: lemmas\<close>

lemma HasPrefix_single [simp]: "HasPrefix (x # xs) [c] = (x = c)"
  by (simp add: HasPrefix_def)

lemma Index_char:
  "Index s [c] = (if c \<in> set s then Some (length (takeWhile (\<lambda>x. x \<noteq> c) s)) else None)"
  by (induction s) auto

lemma SplitN_char_2:
  "SplitN s [c] 2 =
     (if c \<in> set s then [takeWhile (\<lambda>x. x \<noteq> c) s, tl (dropWhile (\<lambda>x. x \<noteq> c) s)] else [s])"
proof -
  have "take (length (takeWhile (\<lambda>x. x \<noteq> c) s)) s = takeWhile (\<lambda>x. x \<noteq> c) s"
    by (simp add: takeWhile_eq_take [symmetric])
  moreover have "drop (Suc (length (takeWhile (\<lambda>x. x \<noteq> c) s))) s = tl (dropWhile (\<lambda>x. x \<noteq> c) s)"
    by (simp add: dropWhile_eq_drop drop_Suc tl_drop)
  ultimately show ?thesis
    by (simp add: numeral_2_eq_2 Index_char)
qed

lemma TrimRight_CRLF_line: "wireLine l \<Longrightarrow> TrimRight (l @ CRLF) CRLF = l"
proof -
  assume w: "wireLine l"
  have "TrimRight (l @ CRLF) CRLF = TrimRight l CRLF"
    by (simp add: TrimRight_def)
  also have "\<dots> = l"
  proof (cases l rule: rev_cases)
    case Nil then show ?thesis by (simp add: TrimRight_def)
  next
    case (snoc ys y)
    then have "y \<noteq> CR" "y \<noteq> LF" using w by (auto simp: wireLine_def)
    then show ?thesis using snoc by (simp add: TrimRight_def)
  qed
  finally show ?thesis .
qed

lemma HasPrefix_hd: "HasPrefix (c # cs) e \<Longrightarrow> e \<noteq> [] \<Longrightarrow> hd e = c"
  by (cases e) (auto simp: HasPrefix_def)

lemma spaceWidth_plain:
  assumes "plainByte c" and "\<forall>e\<in>set encs. e \<noteq> [] \<and> 128 \<le> (of_char (hd e) :: nat)"
  shows "spaceWidth encs (c # cs) = 0"
proof -
  have "\<not> HasPrefix (c # cs) e" if "e \<in> set encs" for e
  proof
    assume "HasPrefix (c # cs) e"
    then have "hd e = c" using that assms(2) HasPrefix_hd by blast
    then show False using that assms by (auto simp: plainByte_def)
  qed
  then have "find (HasPrefix (c # cs)) encs = None"
    by (simp add: find_None_iff)
  then show ?thesis
    using assms(1) by (simp add: spaceWidth_def plainByte_def)
qed

lemma unicodeSpaces_high:
  "\<forall>e\<in>set unicodeSpaces. e \<noteq> [] \<and> 128 \<le> (of_char (hd e) :: nat)"
  "\<forall>e\<in>set (map rev unicodeSpaces). e \<noteq> [] \<and> 128 \<le> (of_char (hd e) :: nat)"
  by (simp_all add: unicodeSpaces_def)

lemma trimLeading_plain:
  assumes "plainByte c" and "\<forall>e\<in>set encs. e \<noteq> [] \<and> 128 \<le> (of_char (hd e) :: nat)"
  shows "trimLeading encs (c # cs) = c # cs"
  using spaceWidth_plain [OF assms] by (subst trimLeading.simps) simp

lemma TrimSpace_plain:
  assumes "s \<noteq> []" and "plainByte (hd s)" and "plainByte (last s)"
  shows "TrimSpace s = s"
proof -
  obtain c cs where s: "s = c # cs" using assms(1) by (cases s) auto
  have 1: "trimLeading unicodeSpaces s = s"
    unfolding s using assms(2) s by (intro trimLeading_plain unicodeSpaces_high) simp
  have r: "rev s = last s # rev (butlast s)"
    using assms(1) by (cases s rule: rev_cases) auto
  have 2: "trimLeading (map rev unicodeSpaces) (rev s) = rev s"
    unfolding r using assms(3) by (intro trimLeading_plain unicodeSpaces_high)
  show ?thesis by (simp add: TrimSpace_def 1 2)
qed

lemma dec_ge: "m \<le> dec m s"
proof (induction s arbitrary: m)
  case Nil show ?case by simp
next
  case (Cons c cs)
  have "m \<le> m * 10 + digitVal c" by simp
  also have "\<dots> \<le> dec (m * 10 + digitVal c) cs" by (rule Cons.IH)
  finally show ?case by simp
qed

lemma ParseUint_loop_dec:
  "list_all isDigit s \<Longrightarrow> dec m s \<le> maxUint64 \<Longrightarrow> ParseUint_loop m s = (dec m s, None)"
proof (induction s arbitrary: m)
  case Nil show ?case by simp
next
  case (Cons c cs)
  have le: "m * 10 + digitVal c \<le> maxUint64"
    using dec_ge [of "m * 10 + digitVal c" cs] Cons.prems(2) by simp
  then have "m < maxUint64 div 10 + 1" by (simp add: maxUint64_def)
  then show ?case using Cons le by simp
qed

lemma dec_snoc: "dec m (s @ [c]) = dec m s * 10 + digitVal c"
  by (induction s arbitrary: m) auto

lemma digit_char: "k < 10 \<Longrightarrow> isDigit (char_of (48 + k)) \<and> digitVal (char_of (48 + k)) = k"
  by (simp add: isDigit_def digitVal_def)

lemma utoa_digits: "list_all isDigit (utoa n) \<and> utoa n \<noteq> [] \<and> dec 0 (utoa n) = n"
proof (induction n rule: utoa.induct)
  case (1 n)
  show ?case
  proof (cases "n < 10")
    case True
    then show ?thesis using digit_char [of n] by (simp add: utoa.simps)
  next
    case False
    have "n mod 10 < 10" by simp
    then show ?thesis
      using False 1 digit_char [of "n mod 10"]
      by (subst (1 2 3) utoa.simps) (simp add: dec_snoc)
  qed
qed

lemma Atoi_Itoa:
  assumes "0 \<le> i" and "i < 2 ^ 63"
  shows "Atoi (Itoa i) = (i, None)"
proof -
  let ?s = "utoa (nat i)"
  have d: "list_all isDigit ?s" and ne: "?s \<noteq> []" and v: "dec 0 ?s = nat i"
    using utoa_digits [of "nat i"] by auto
  have lt: "nat i < 2 ^ 63" using assms by (simp add: nat_less_iff)
  have "dec 0 ?s \<le> maxUint64" using v lt by (simp add: maxUint64_def)
  then have pu: "ParseUint ?s = (nat i, None)"
    using ParseUint_loop_dec [OF d, of 0] ne v by (simp add: ParseUint_def)
  have "isDigit (hd ?s)" using d ne by (cases ?s) auto
  then have ns: "hd ?s \<noteq> CHR ''+''" "hd ?s \<noteq> CHR ''-''"
    by (auto simp: isDigit_def)
  show ?thesis
    using assms ne ns pu lt by (simp add: Atoi_def ParseInt_def Itoa_def)
qed

lemma isDigit_plain: "isDigit c \<Longrightarrow> plainByte c \<and> c \<noteq> CHR '' ''"
  by (auto simp: isDigit_def plainByte_def asciiSpace_def)

lemma ParseUint_loop_value:
  "n \<le> maxUint64 \<Longrightarrow>
   ParseUint_loop n s =
     (if maxUint64 < dec n (takeWhile isDigit s) then (maxUint64, Some ErrRange)
      else if takeWhile isDigit s \<noteq> s then (0, Some ErrSyntax)
      else (dec n s, None))"
proof (induction s arbitrary: n)
  case Nil
  then show ?case by simp
next
  case (Cons c cs)
  show ?case
  proof (cases "isDigit c")
    case False
    then show ?thesis using Cons.prems by simp
  next
    case d: True
    show ?thesis
    proof (cases "n * 10 + digitVal c \<le> maxUint64")
      case True
      then have "n < maxUint64 div 10 + 1" by (simp add: maxUint64_def)
      then show ?thesis using d True Cons.IH [OF True] by simp
    next
      case False
      have "n * 10 + digitVal c \<le> dec (n * 10 + digitVal c) (takeWhile isDigit cs)"
        by (rule dec_ge)
      then have "maxUint64 < dec n (takeWhile isDigit (c # cs))"
        using False d by simp
      then show ?thesis using d False by simp
    qed
  qed
qed

lemma Atoi_fieldValue: "fst (Atoi f) = fieldValue f"
proof (cases f)
  case Nil
  then show ?thesis
    by (simp add: Atoi_def ParseInt_def fieldValue_def HasPrefix_def)
next
  case (Cons c cs)
  define body where "body = (if c = CHR ''+'' \<or> c = CHR ''-'' then cs else c # cs)"
  define ds where "ds = takeWhile isDigit body"
  have pu: "ParseUint body =
     (if body = [] then (0, Some ErrSyntax)
      else if maxUint64 < dec 0 ds then (maxUint64, Some ErrRange)
      else if ds \<noteq> body then (0, Some ErrSyntax)
      else (dec 0 body, None))"
    unfolding ds_def using ParseUint_loop_value [of 0 body] by (simp add: ParseUint_def)
  have m: "maxUint64 < dec 0 ds \<longleftrightarrow> (2::nat) ^ 64 \<le> dec 0 ds"
    by (simp add: maxUint64_def) presburger
  have e: "ds = [] \<or> ds \<noteq> body \<longleftrightarrow> body = [] \<or> ds \<noteq> body"
    unfolding ds_def by (cases body) auto
  have hp: "HasPrefix f ''+'' = (c = CHR ''+'')" "HasPrefix f ''-'' = (c = CHR ''-'')"
    "hd f = c" "(f = []) = False"
    unfolding Cons by (simp_all add: HasPrefix_def)
  have bd: "(if c = CHR ''+'' \<or> c = CHR ''-'' then tl f else f) = body"
    by (simp add: body_def Cons)
  have fv: "fieldValue f =
      (if 2 ^ 64 \<le> dec 0 ds then (if c = CHR ''-'' then - (2 ^ 63) else 2 ^ 63 - 1)
       else if body = [] \<or> ds \<noteq> body then 0
       else if c = CHR ''-'' then max (- (2 ^ 63)) (- int (dec 0 ds))
       else min (2 ^ 63 - 1) (int (dec 0 ds)))"
    unfolding fieldValue_def Let_def hp bd ds_def [symmetric] e by (rule refl)
  have at: "Atoi f =
      (case ParseUint body of (un, err) \<Rightarrow>
          if err = Some ErrSyntax then (0, err)
          else if c \<noteq> CHR ''-'' \<and> un \<ge> 2 ^ 63 then (2 ^ 63 - 1, Some ErrRange)
          else if c = CHR ''-'' \<and> un > 2 ^ 63 then (- (2 ^ 63), Some ErrRange)
          else (if c = CHR ''-'' then - int un else int un, None))"
    unfolding Atoi_def ParseInt_def Let_def hp bd if_False by (rule refl)
  consider (emp) "body = []" | (rng) "body \<noteq> []" "2 ^ 64 \<le> dec 0 ds"
    | (syn) "body \<noteq> []" "\<not> 2 ^ 64 \<le> dec 0 ds" "ds \<noteq> body"
    | (dig) "body \<noteq> []" "\<not> 2 ^ 64 \<le> dec 0 ds" "ds = body"
    by blast
  then show ?thesis
  proof cases
    case emp
    then have "ds = []" by (simp add: ds_def)
    then show ?thesis using emp pu by (simp add: at fv)
  next
    case rng
    then have "ParseUint body = (maxUint64, Some ErrRange)" using pu m by simp
    then show ?thesis using rng by (simp add: at fv maxUint64_def)
  next
    case syn
    then have "ParseUint body = (0, Some ErrSyntax)" using pu m by simp
    then show ?thesis using syn by (simp add: at fv)
  next
    case dig
    then have p: "ParseUint body = (dec 0 ds, None)" using pu m by simp
    show ?thesis
    proof (cases "c = CHR ''-''")
      case True
      then show ?thesis using dig p by (simp add: at fv max_def)
    next
      case False
      then show ?thesis using dig p by (simp add: at fv min_def)
    qed
  qed
qed

lemma fieldValue_examples:
  "fieldValue ''100'' = 100" "fieldValue ''+42'' = 42" "fieldValue ''-7'' = - 7"
  "fieldValue ''foo'' = 0" "fieldValue ''12x'' = 0" "fieldValue [] = 0" "fieldValue ''-'' = 0"
  "fieldValue ''9223372036854775808'' = 9223372036854775807"
  "fieldValue ''-9223372036854775809'' = - 9223372036854775808"
  "fieldValue ''99999999999999999999x'' = 9223372036854775807"
  by (simp_all add: fieldValue_def HasPrefix_def isDigit_def digitVal_def Let_def)

section \<open>Reading and writing: lemmas\<close>

lemma ReadString_line:
  assumes "LF \<notin> set l" and "incoming c = l @ LF # rest"
  shows "ReadString c = ((l @ [LF], None), c\<lparr>incoming := rest\<rparr>)"
proof -
  have "\<And>x. x \<in> set l \<Longrightarrow> x \<noteq> LF" using assms(1) by auto
  then have "takeWhile (\<lambda>x. x \<noteq> LF) (l @ LF # rest) = l"
    and "dropWhile (\<lambda>x. x \<noteq> LF) (l @ LF # rest) = LF # rest"
    by (simp_all add: takeWhile_append2 dropWhile_append2)
  then show ?thesis
    using assms(2) by (simp add: ReadString_def)
qed

lemma readLine_wire:
  assumes "wireLine l" and "incoming c = l @ CRLF @ rest"
  shows "readLine c = (Inr l, c\<lparr>incoming := rest\<rparr>)"
proof -
  have nl: "LF \<notin> set (l @ [CR])" using assms(1) by (simp add: wireLine_def)
  have inc: "incoming c = (l @ [CR]) @ LF # rest" using assms(2) by simp
  have "ReadString c = (((l @ [CR]) @ [LF], None), c\<lparr>incoming := rest\<rparr>)"
    by (rule ReadString_line [OF nl inc])
  then show ?thesis
    using TrimRight_CRLF_line [OF assms(1)] by (simp add: readLine_def)
qed

lemma Fprintf_ok:
  "wleft c \<noteq> Some 0 \<Longrightarrow> fst (Fprintf w c) = None \<and> incoming (snd (Fprintf w c)) = incoming c
     \<and> writes (snd (Fprintf w c)) = writes c @ [w]"
  by (auto simp: Fprintf_def split: option.splits nat.splits)

section \<open>POP3: lemmas\<close>

lemma readDot_loop_block:
  assumes "\<forall>l\<in>set block. wireLine l \<and> l \<noteq> ''.''"
    and "incoming c = wire block @ ''.'' @ CRLF @ rest"
  shows "readDot_loop acc c = (Inr (acc @ map dotUnstuff block), c\<lparr>incoming := rest\<rparr>)"
  using assms
proof (induction block arbitrary: acc c)
  case Nil
  have "wireLine ''.''" by (simp add: wireLine_def)
  moreover have "incoming c = ''.'' @ CRLF @ rest" using Nil by (simp add: wire_def)
  ultimately have "readLine c = (Inr ''.'', c\<lparr>incoming := rest\<rparr>)"
    by (rule readLine_wire)
  then show ?case
    by (subst readDot_loop.simps) simp
next
  case (Cons l block)
  have w: "wireLine l" and nd: "l \<noteq> ''.''" using Cons.prems(1) by auto
  have inc: "incoming c = l @ CRLF @ (wire block @ ''.'' @ CRLF @ rest)"
    using Cons.prems(2) by (simp add: wire_def)
  have rl: "readLine c = (Inr l, c\<lparr>incoming := wire block @ ''.'' @ CRLF @ rest\<rparr>)"
    by (rule readLine_wire [OF w inc])
  have "readDot_loop (acc @ [dotUnstuff l]) (c\<lparr>incoming := wire block @ ''.'' @ CRLF @ rest\<rparr>)
          = (Inr ((acc @ [dotUnstuff l]) @ map dotUnstuff block),
             c\<lparr>incoming := wire block @ ''.'' @ CRLF @ rest\<rparr>\<lparr>incoming := rest\<rparr>)"
    by (rule Cons.IH) (use Cons.prems(1) in auto)
  then show ?case
    using rl nd by (subst readDot_loop.simps) simp
qed

lemma POP3_readResponse_ok:
  assumes "wireLine l" "\<not> HasPrefix l ''-ERR''" "incoming c = l @ CRLF @ rest"
  shows "POP3_readResponse c = (Inr l, c\<lparr>incoming := rest\<rparr>)"
  using readLine_wire [OF assms(1,3)] assms(2) by (simp add: POP3_readResponse_def)

lemma POP3_cmd_ok:
  assumes "wleft c \<noteq> Some 0" "wireLine l" "\<not> HasPrefix l ''-ERR''" "incoming c = l @ CRLF @ rest"
  shows "POP3_cmd command c = (Inr l, (snd (Fprintf (Cmd (command @ CRLF)) c))\<lparr>incoming := rest\<rparr>)"
proof -
  obtain c' where f: "Fprintf (Cmd (command @ CRLF)) c = (None, c')" and i: "incoming c' = incoming c"
    using Fprintf_ok [OF assms(1), of "Cmd (command @ CRLF)"] by (cases "Fprintf (Cmd (command @ CRLF)) c") auto
  have "POP3_readResponse c' = (Inr l, c'\<lparr>incoming := rest\<rparr>)"
    using assms i by (intro POP3_readResponse_ok) auto
  then show ?thesis using f by (simp add: POP3_cmd_def)
qed

lemma List_loop_entries: "List_loop ls msgs = msgs @ List.map_filter entry ls"
proof (induction ls arbitrary: msgs)
  case Nil
  show ?case by (simp add: List.map_filter_simps)
next
  case (Cons l ls)
  show ?case
    by (simp add: Cons.IH List.map_filter_simps entry_def twoFields_def SplitN_char_2 Let_def)
qed

lemma entry_wellformed:
  assumes "0 \<le> i" "i < 2 ^ 63" "0 \<le> n" "n < 2 ^ 63"
  shows "entry (Itoa i @ '' '' @ Itoa n)
           = Some \<lparr>ID = i, Size = n, From = [], Subject = [], Date = [], Body = []\<rparr>"
proof -
  let ?a = "utoa (nat i)" and ?b = "utoa (nat n)"
  have a: "list_all isDigit ?a" "?a \<noteq> []" and b: "list_all isDigit ?b" "?b \<noteq> []"
    using utoa_digits by auto
  have it: "Itoa i = ?a" "Itoa n = ?b" using assms by (simp_all add: Itoa_def)
  let ?t = "?a @ '' '' @ ?b"
  have "plainByte (hd ?t)" using a isDigit_plain by (cases ?a) auto
  moreover have "plainByte (last ?t)" using b isDigit_plain by (cases ?b rule: rev_cases) auto
  ultimately have t: "TrimSpace ?t = ?t" by (intro TrimSpace_plain) auto
  have nsp: "\<And>x. x \<in> set ?a \<Longrightarrow> x \<noteq> CHR '' ''"
    using a(1) isDigit_plain by (auto simp: list_all_iff)
  have tw: "takeWhile (\<lambda>c. c \<noteq> CHR '' '') ?t = ?a"
    and dw: "dropWhile (\<lambda>c. c \<noteq> CHR '' '') ?t = CHR '' '' # ?b"
    using nsp by (simp_all add: takeWhile_append2 dropWhile_append2)
  have "twoFields ?t = Some (?a, ?b)"
    by (simp add: twoFields_def t tw dw del: append.simps)
  then show ?thesis
    using Atoi_Itoa [OF assms(1,2)] Atoi_Itoa [OF assms(3,4)] by (simp add: entry_def it)
qed

lemma entry_no_space: "CHR '' '' \<notin> set (TrimSpace l) \<Longrightarrow> entry l = None"
  by (simp add: entry_def twoFields_def)

lemma POP3_List_block:
  assumes "wleft c \<noteq> Some 0" and "wireLine status" and "\<not> HasPrefix status ''-ERR''"
    and "\<forall>l\<in>set block. wireLine l \<and> l \<noteq> ''.''"
    and "incoming c = wire (status # block @ [''.'']) @ rest"
  shows "fst (POP3_List c) = Inr (List.map_filter entry (map dotUnstuff block))"
    and "incoming (snd (POP3_List c)) = rest"
proof -
  define c1 where "c1 = (snd (Fprintf (Cmd (''LIST'' @ CRLF)) c))\<lparr>incoming := wire block @ ''.'' @ CRLF @ rest\<rparr>"
  have inc: "incoming c = status @ CRLF @ (wire block @ ''.'' @ CRLF @ rest)"
    using assms(5) by (simp add: wire_def)
  have cmd: "POP3_cmd ''LIST'' c = (Inr status, c1)"
    unfolding c1_def using assms(1-3) inc by (intro POP3_cmd_ok) auto
  have "incoming c1 = wire block @ ''.'' @ CRLF @ rest" by (simp add: c1_def)
  then have rd: "readDot c1 = (Inr (map dotUnstuff block), c1\<lparr>incoming := rest\<rparr>)"
    using assms(4) readDot_loop_block [of block c1 rest "[]"] by (simp add: readDot_def)
  have res: "POP3_List c = (Inr (List_loop (map dotUnstuff block) []), c1\<lparr>incoming := rest\<rparr>)"
    by (simp add: POP3_List_def cmd rd)
  show "fst (POP3_List c) = Inr (List.map_filter entry (map dotUnstuff block))"
    by (simp add: res List_loop_entries)
  show "incoming (snd (POP3_List c)) = rest"
    by (simp add: res)
qed

lemmas entry_eval = entry_def twoFields_def TrimSpace_def trimLeading.simps spaceWidth_def
  asciiSpace_def unicodeSpaces_def HasPrefix_def Atoi_def ParseInt_def ParseUint_def isDigit_def
  digitVal_def maxUint64_def Let_def List.map_filter_simps dotUnstuff_def

section \<open>SMTP: lemmas\<close>

lemma SMTP_readResponse_loop_line:
  assumes "wireLine l" and "incoming c = l @ CRLF @ rest"
  shows "SMTP_readResponse_loop c =
           (if continuation l then SMTP_readResponse_loop (c\<lparr>incoming := rest\<rparr>)
            else (Inr l, c\<lparr>incoming := rest\<rparr>))"
proof -
  have nl: "LF \<notin> set (l @ [CR])" using assms(1) by (simp add: wireLine_def)
  have inc: "incoming c = (l @ [CR]) @ LF # rest" using assms(2) by simp
  have "ReadString c = (((l @ [CR]) @ [LF], None), c\<lparr>incoming := rest\<rparr>)"
    by (rule ReadString_line [OF nl inc])
  then show ?thesis
    using TrimRight_CRLF_line [OF assms(1)]
    by (subst SMTP_readResponse_loop.simps) (auto simp: continuation_def)
qed

lemma SMTP_readResponse_loop_reply:
  assumes "\<forall>l\<in>set conts. wireLine l \<and> continuation l"
    and "wireLine final" and "\<not> continuation final"
    and "incoming c = wire (conts @ [final]) @ rest"
  shows "SMTP_readResponse_loop c = (Inr final, c\<lparr>incoming := rest\<rparr>)"
  using assms
proof (induction conts arbitrary: c)
  case Nil
  then have "incoming c = final @ CRLF @ rest" by (simp add: wire_def)
  then show ?case
    using SMTP_readResponse_loop_line [OF Nil.prems(2), of c rest] Nil.prems(3) by simp
next
  case (Cons l conts)
  have inc: "incoming c = l @ CRLF @ (wire (conts @ [final]) @ rest)"
    using Cons.prems(4) by (simp add: wire_def)
  have w: "wireLine l" and k: "continuation l" using Cons.prems(1) by auto
  have "SMTP_readResponse_loop c
          = SMTP_readResponse_loop (c\<lparr>incoming := wire (conts @ [final]) @ rest\<rparr>)"
    using SMTP_readResponse_loop_line [OF w inc] k by simp
  also have "\<dots> = (Inr final, c\<lparr>incoming := wire (conts @ [final]) @ rest\<rparr>\<lparr>incoming := rest\<rparr>)"
    by (rule Cons.IH) (use Cons.prems in auto)
  finally show ?case by simp
qed

lemma rejected_iff: "rejected l = (1 \<le> length l \<and> (l ! 0 = CHR ''4'' \<or> l ! 0 = CHR ''5''))"
  by (cases l) (auto simp: rejected_def)

lemma SMTP_readResponse_reply:
  assumes "\<forall>l\<in>set conts. wireLine l \<and> continuation l"
    and "wireLine final" and "\<not> continuation final"
    and "incoming c = wire (conts @ [final]) @ rest"
  shows "SMTP_readResponse c =
           ((final, if rejected final then Some (Errorf (''smtp: '' @ final)) else None),
            c\<lparr>incoming := rest\<rparr>)"
  using SMTP_readResponse_loop_reply [OF assms]
  by (simp add: SMTP_readResponse_def rejected_iff)

section \<open>Dot-stuffing: lemmas\<close>

lemma dotStuff_wire: "wireLine l \<Longrightarrow> wireLine (dotStuff l) \<and> dotStuff l \<noteq> ''.''"
  by (cases l) (auto simp: dotStuff_def wireLine_def HasPrefix_def)

lemma dotUnstuff_dotStuff_id: "dotUnstuff (dotStuff l) = l"
  by (cases l) (auto simp: dotStuff_def dotUnstuff_def HasPrefix_def)

section \<open>Connect: lemmas\<close>

lemma HasPrefix_OK_not_ERR: "HasPrefix g ''+OK'' \<Longrightarrow> \<not> HasPrefix g ''-ERR''"
  by (cases g) (auto simp: HasPrefix_def)

lemma POP3_Connect_line:
  assumes "dial (UseSSL_pop3 cfg) (Host_pop3 cfg @ '':'' @ Itoa (Port_pop3 cfg)) = Inr c"
    and "wireLine g" and "incoming c = g @ CRLF @ rest"
  shows "POP3_Connect dial cfg
      = (if HasPrefix g ''-ERR''
         then (Some (Wrap ''pop3 greeting: '' (Errorf (''pop3: '' @ g))),
               Some (c\<lparr>incoming := rest, tls := UseSSL_pop3 cfg, closed := True\<rparr>))
         else (None, Some (c\<lparr>incoming := rest, tls := UseSSL_pop3 cfg\<rparr>)))"
proof -
  let ?c = "c\<lparr>tls := UseSSL_pop3 cfg\<rparr>"
  have "readLine ?c = (Inr g, ?c\<lparr>incoming := rest\<rparr>)"
    using assms by (intro readLine_wire) auto
  then have "POP3_readResponse ?c
      = (if HasPrefix g ''-ERR'' then (Inl (Errorf (''pop3: '' @ g)), ?c\<lparr>incoming := rest\<rparr>)
         else (Inr g, ?c\<lparr>incoming := rest\<rparr>))"
    by (simp add: POP3_readResponse_def)
  then show ?thesis
    using assms(1) by (simp add: POP3_Connect_def Close_conn_def)
qed

lemma SMTP_Connect_reply:
  assumes "dial (UseSSL cfg) (Host cfg @ '':'' @ Itoa (Port cfg)) = Inr c"
    and "\<forall>l\<in>set conts. wireLine l \<and> continuation l"
    and "wireLine final" and "\<not> continuation final"
    and "incoming c = wire (conts @ [final]) @ rest"
  shows "SMTP_Connect dial cfg
      = (if rejected final
         then (Some (Wrap ''smtp greeting: '' (Errorf (''smtp: '' @ final))),
               Some (c\<lparr>incoming := rest, tls := UseSSL cfg, closed := True\<rparr>))
         else (None, Some (c\<lparr>incoming := rest, tls := UseSSL cfg\<rparr>)))"
proof -
  let ?c = "c\<lparr>tls := UseSSL cfg\<rparr>"
  have "incoming ?c = wire (conts @ [final]) @ rest"
    using assms(5) by simp
  then have "SMTP_readResponse ?c =
           ((final, if rejected final then Some (Errorf (''smtp: '' @ final)) else None),
            ?c\<lparr>incoming := rest\<rparr>)"
    using assms(2-4) by (intro SMTP_readResponse_reply) auto
  then show ?thesis
    using assms(1) by (simp add: SMTP_Connect_def Close_conn_def)
qed

section \<open>What a command leaves behind: lemmas\<close>

lemma Fprintf_writes [simp]: "writes (snd (Fprintf w c)) = writes c @ [w]"
  by (simp add: Fprintf_def split: option.splits nat.splits)

lemma Fprintf_tls [simp]: "tls (snd (Fprintf w c)) = tls c"
  by (simp add: Fprintf_def split: option.splits nat.splits)

lemma Fprintf_incoming [simp]: "incoming (snd (Fprintf w c)) = incoming c"
  by (simp add: Fprintf_def split: option.splits nat.splits)

lemma Fprintf_unlimited: "wleft c = None \<Longrightarrow> Fprintf w c = (None, c\<lparr>writes := writes c @ [w]\<rparr>)"
  by (simp add: Fprintf_def)

lemma ReadString_keeps [simp]:
  "writes (snd (ReadString c)) = writes c" "tls (snd (ReadString c)) = tls c"
  "wleft (snd (ReadString c)) = wleft c"
  by (simp_all add: ReadString_def Let_def)

lemma SMTP_readResponse_loop_keeps:
  "writes (snd (SMTP_readResponse_loop c)) = writes c
   \<and> tls (snd (SMTP_readResponse_loop c)) = tls c
   \<and> wleft (snd (SMTP_readResponse_loop c)) = wleft c"
proof (induction c rule: SMTP_readResponse_loop.induct)
  case (1 c)
  obtain line e c' where r: "ReadString c = ((line, e), c')"
    by (metis prod.exhaust)
  have k: "writes c' = writes c" "tls c' = tls c" "wleft c' = wleft c"
    using ReadString_keeps [of c] r by simp_all
  show ?case
  proof (cases "e = None \<and> \<not> (length (TrimRight line CRLF) < 4 \<or> TrimRight line CRLF ! 3 \<noteq> CHR ''-'')")
    case True
    then have "SMTP_readResponse_loop c = SMTP_readResponse_loop c'"
      using r by (subst SMTP_readResponse_loop.simps) simp
    moreover have "writes (snd (SMTP_readResponse_loop c')) = writes c'
        \<and> tls (snd (SMTP_readResponse_loop c')) = tls c'
        \<and> wleft (snd (SMTP_readResponse_loop c')) = wleft c'"
      using True r by (intro "1.IH" [of "(line, e)" c' line e]) auto
    ultimately show ?thesis using k by simp
  next
    case False
    then have "snd (SMTP_readResponse_loop c) = c'"
      using r by (subst SMTP_readResponse_loop.simps) (auto split: option.splits)
    then show ?thesis using k by simp
  qed
qed

lemma SMTP_readResponse_keeps [simp]:
  "writes (snd (SMTP_readResponse c)) = writes c" "tls (snd (SMTP_readResponse c)) = tls c"
  "wleft (snd (SMTP_readResponse c)) = wleft c"
  using SMTP_readResponse_loop_keeps [of c]
  by (auto simp: SMTP_readResponse_def split: prod.splits sum.splits)

lemma SMTP_cmd_writes [simp]: "writes (snd (SMTP_cmd s c)) = writes c @ [Cmd (s @ CRLF)]"
proof (cases "Fprintf (Cmd (s @ CRLF)) c")
  case (Pair e c')
  then have "writes c' = writes c @ [Cmd (s @ CRLF)]"
    using Fprintf_writes [of "Cmd (s @ CRLF)" c] by simp
  then show ?thesis
    using Pair by (cases e) (simp_all add: SMTP_cmd_def)
qed

lemma SMTP_cmd_tls [simp]: "tls (snd (SMTP_cmd s c)) = tls c"
proof (cases "Fprintf (Cmd (s @ CRLF)) c")
  case (Pair e c')
  then have "tls c' = tls c"
    using Fprintf_tls [of "Cmd (s @ CRLF)" c] by simp
  then show ?thesis
    using Pair by (cases e) (simp_all add: SMTP_cmd_def)
qed

lemma SMTP_cmd_reply:
  assumes "wleft c = None"
    and "\<forall>l\<in>set conts. wireLine l \<and> continuation l"
    and "wireLine final" and "\<not> continuation final"
    and "incoming c = wire (conts @ [final]) @ rest"
  shows "SMTP_cmd s c =
           ((final, if rejected final then Some (Errorf (''smtp: '' @ final)) else None),
            c\<lparr>incoming := rest, writes := writes c @ [Cmd (s @ CRLF)]\<rparr>)"
proof -
  let ?c = "c\<lparr>writes := writes c @ [Cmd (s @ CRLF)]\<rparr>"
  have "incoming ?c = wire (conts @ [final]) @ rest" using assms(5) by simp
  then have "SMTP_readResponse ?c =
           ((final, if rejected final then Some (Errorf (''smtp: '' @ final)) else None),
            ?c\<lparr>incoming := rest\<rparr>)"
    using assms(2-4) by (intro SMTP_readResponse_reply) auto
  then show ?thesis
    using Fprintf_unlimited [OF assms(1), of "Cmd (s @ CRLF)"] by (simp add: SMTP_cmd_def)
qed

lemma SMTP_cmd_final:
  assumes "wleft c = None" and "wireLine r" and "\<not> continuation r"
    and "incoming c = wire (r # rs) @ rest"
  shows "SMTP_cmd s c =
           ((r, if rejected r then Some (Errorf (''smtp: '' @ r)) else None),
            c\<lparr>incoming := wire rs @ rest, writes := writes c @ [Cmd (s @ CRLF)]\<rparr>)"
proof -
  have "incoming c = wire ([] @ [r]) @ (wire rs @ rest)"
    using assms(4) by (simp add: wire_def)
  then show ?thesis
    using SMTP_cmd_reply [of c "[]" r "wire rs @ rest" s] assms(1-3) by simp
qed

lemma SMTP_cmd_accepted:
  assumes "wleft c = None" and "accepted r" and "incoming c = wire (r # rs) @ rest"
  shows "SMTP_cmd s c =
           ((r, None), c\<lparr>incoming := wire rs @ rest, writes := writes c @ [Cmd (s @ CRLF)]\<rparr>)"
  using SMTP_cmd_final [of c r rs rest s] assms by (simp add: accepted_def)

lemma hello_tls [simp]: "tls (snd (hello c)) = tls c"
proof -
  obtain r e c1 where 1: "SMTP_cmd ''EHLO mulamail'' c = ((r, e), c1)"
    by (metis prod.exhaust)
  obtain r' e' c2 where 2: "SMTP_cmd ''HELO mulamail'' c1 = ((r', e'), c2)"
    by (metis prod.exhaust)
  have "tls c1 = tls c" using SMTP_cmd_tls [of "''EHLO mulamail''" c] 1 by simp
  moreover have "tls c2 = tls c1" using SMTP_cmd_tls [of "''HELO mulamail''" c1] 2 by simp
  ultimately show ?thesis
    using 1 2 by (cases e; cases e') (simp_all add: hello_def)
qed

section \<open>Authentication: lemmas\<close>

lemma wire_Nil [simp]: "wire [] = []"
  by (simp add: wire_def)

lemma authLogin_first_write:
  "\<exists>ws. writes (snd (authLogin cfg c)) = writes c @ Cmd (''AUTH LOGIN'' @ CRLF) # ws"
proof -
  obtain r1 e1 c1 where 1: "SMTP_cmd ''AUTH LOGIN'' c = ((r1, e1), c1)"
    by (metis prod.exhaust)
  obtain r2 e2 c2 where 2: "SMTP_cmd (EncodeToString (User cfg)) c1 = ((r2, e2), c2)"
    by (metis prod.exhaust)
  obtain r3 e3 c3 where 3: "SMTP_cmd (EncodeToString (Pass cfg)) c2 = ((r3, e3), c3)"
    by (metis prod.exhaust)
  have w1: "writes c1 = writes c @ [Cmd (''AUTH LOGIN'' @ CRLF)]"
    using SMTP_cmd_writes [of "''AUTH LOGIN''" c] 1 by simp
  have w2: "writes c2 = writes c1 @ [Cmd (EncodeToString (User cfg) @ CRLF)]"
    using SMTP_cmd_writes [of "EncodeToString (User cfg)" c1] 2 by simp
  have w3: "writes c3 = writes c2 @ [Cmd (EncodeToString (Pass cfg) @ CRLF)]"
    using SMTP_cmd_writes [of "EncodeToString (Pass cfg)" c2] 3 by simp
  show ?thesis
    using 1 2 3 w1 w2 w3 by (cases e1; cases e2; cases e3) (simp_all add: authLogin_def)
qed

lemma authLogin_accepted:
  assumes "wleft c = None" and "accepted r1" and "accepted r2" and "accepted r3"
    and "incoming c = wire [r1, r2, r3] @ rest"
  shows "authLogin cfg c
      = (None, c\<lparr>incoming := rest,
                  writes := writes c @ [Cmd (''AUTH LOGIN'' @ CRLF),
                                        Cmd (EncodeToString (User cfg) @ CRLF),
                                        Cmd (EncodeToString (Pass cfg) @ CRLF)]\<rparr>)"
proof -
  let ?c1 = "c\<lparr>incoming := wire [r2, r3] @ rest, writes := writes c @ [Cmd (''AUTH LOGIN'' @ CRLF)]\<rparr>"
  let ?c2 = "?c1\<lparr>incoming := wire [r3] @ rest,
                  writes := writes ?c1 @ [Cmd (EncodeToString (User cfg) @ CRLF)]\<rparr>"
  let ?c3 = "?c2\<lparr>incoming := wire [] @ rest,
                  writes := writes ?c2 @ [Cmd (EncodeToString (Pass cfg) @ CRLF)]\<rparr>"
  have 1: "SMTP_cmd ''AUTH LOGIN'' c = ((r1, None), ?c1)"
    using assms by (intro SMTP_cmd_accepted) auto
  have 2: "SMTP_cmd (EncodeToString (User cfg)) ?c1 = ((r2, None), ?c2)"
    using assms by (intro SMTP_cmd_accepted) auto
  have 3: "SMTP_cmd (EncodeToString (Pass cfg)) ?c2 = ((r3, None), ?c3)"
    using assms by (intro SMTP_cmd_accepted) auto
  show ?thesis
    by (simp only: authLogin_def 1 2 3 prod.case option.case) simp
qed

section \<open>Send: lemmas\<close>

lemma Send_rcpt_writes:
  "\<exists>k. writes (snd (Send_rcpt tos c)) = writes c @ map rcptTo (take k tos)"
proof (induction tos arbitrary: c)
  case Nil
  show ?case by simp
next
  case (Cons to tos)
  obtain r e c' where 1: "SMTP_cmd (''RCPT TO:<'' @ to @ ''>'') c = ((r, e), c')"
    by (metis prod.exhaust)
  have w: "writes c' = writes c @ [rcptTo to]"
    using arg_cong [OF 1, of "\<lambda>x. writes (snd x)"] by (simp add: rcptTo_def)
  show ?case
  proof (cases e)
    case None
    obtain k where "writes (snd (Send_rcpt tos c')) = writes c' @ map rcptTo (take k tos)"
      using Cons.IH by blast
    then have "writes (snd (Send_rcpt (to # tos) c)) = writes c @ map rcptTo (take (Suc k) (to # tos))"
      using 1 None w by simp
    then show ?thesis by blast
  next
    case (Some err)
    then have "writes (snd (Send_rcpt (to # tos) c)) = writes c @ map rcptTo (take (Suc 0) (to # tos))"
      using 1 w by simp
    then show ?thesis by blast
  qed
qed

lemma Send_rcpt_None_writes:
  "Send_rcpt tos c = (None, c') \<Longrightarrow> writes c' = writes c @ map rcptTo tos"
proof (induction tos arbitrary: c)
  case Nil
  then show ?case by simp
next
  case (Cons to tos)
  obtain r e c1 where 1: "SMTP_cmd (''RCPT TO:<'' @ to @ ''>'') c = ((r, e), c1)"
    by (metis prod.exhaust)
  have w: "writes c1 = writes c @ [rcptTo to]"
    using arg_cong [OF 1, of "\<lambda>x. writes (snd x)"] by (simp add: rcptTo_def)
  have e: "e = None" and 2: "Send_rcpt tos c1 = (None, c')"
    using Cons.prems 1 by (cases e; simp)+
  show ?case
    using Cons.IH [OF 2] w by simp
qed

lemma Send_rcpt_append:
  "Send_rcpt (xs @ ys) c =
     (case Send_rcpt xs c of (Some e, c') \<Rightarrow> (Some e, c') | (None, c') \<Rightarrow> Send_rcpt ys c')"
proof (induction xs arbitrary: c)
  case Nil
  show ?case by simp
next
  case (Cons x xs)
  obtain r e c1 where 1: "SMTP_cmd (''RCPT TO:<'' @ x @ ''>'') c = ((r, e), c1)"
    by (metis prod.exhaust)
  show ?case
    using 1 Cons.IH [of c1] by (cases e) simp_all
qed

lemma Send_rcpt_accepted:
  assumes "wleft c = None" and "list_all accepted rs" and "length rs = length tos"
    and "incoming c = wire rs @ rest"
  shows "Send_rcpt tos c = (None, c\<lparr>incoming := rest, writes := writes c @ map rcptTo tos\<rparr>)"
  using assms
proof (induction tos arbitrary: rs c)
  case Nil
  then show ?case by simp
next
  case (Cons to tos)
  obtain r rs' where rs: "rs = r # rs'" using Cons.prems(3) by (cases rs) auto
  let ?c1 = "c\<lparr>incoming := wire rs' @ rest, writes := writes c @ [Cmd ((''RCPT TO:<'' @ to @ ''>'') @ CRLF)]\<rparr>"
  have 1: "SMTP_cmd (''RCPT TO:<'' @ to @ ''>'') c = ((r, None), ?c1)"
    using Cons.prems rs by (intro SMTP_cmd_accepted) auto
  have "Send_rcpt tos ?c1 = (None, ?c1\<lparr>incoming := rest, writes := writes ?c1 @ map rcptTo tos\<rparr>)"
    using Cons.prems rs by (intro Cons.IH [of ?c1 rs']) auto
  then show ?case
    using 1 by (simp add: rcptTo_def)
qed

lemma Send_lines_unlimited:
  "wleft c = None \<Longrightarrow> Send_lines ls c = (None, c\<lparr>writes := writes c @ map dataLine ls\<rparr>)"
proof (induction ls arbitrary: c)
  case Nil
  show ?case by simp
next
  case (Cons l ls)
  have "Send_lines ls (c\<lparr>writes := writes c @ [dataLine l]\<rparr>)
      = (None, c\<lparr>writes := writes c @ [dataLine l]\<rparr>\<lparr>writes := writes (c\<lparr>writes := writes c @ [dataLine l]\<rparr>) @ map dataLine ls\<rparr>)"
    using Cons.prems by (intro Cons.IH) simp
  then show ?case
    using Fprintf_unlimited [OF Cons.prems, of "dataLine l"] by (simp add: dataLine_def)
qed

lemma Send_data_reply:
  assumes "wleft c = None" and "wireLine r" and "\<not> continuation r" and "incoming c = wire [r] @ rest"
  shows "Send_data now req c
      = (if rejected r then Some (Wrap ''smtp DATA end: '' (Errorf (''smtp: '' @ r))) else None,
         c\<lparr>incoming := rest,
           writes := writes c @ map dataLine (Split (Send_msg now req) [LF]) @ [Data (''.'' @ CRLF)]\<rparr>)"
proof -
  let ?ls = "Split (Send_msg now req) [LF]"
  let ?c1 = "c\<lparr>writes := writes c @ map dataLine ?ls\<rparr>"
  let ?c2 = "?c1\<lparr>writes := writes ?c1 @ [Data (''.'' @ CRLF)]\<rparr>"
  have 1: "Send_lines ?ls c = (None, ?c1)"
    using assms(1) by (rule Send_lines_unlimited)
  have 2: "Fprintf (Data (''.'' @ CRLF)) ?c1 = (None, ?c2)"
    using assms(1) by (intro Fprintf_unlimited) simp
  have "incoming ?c2 = wire ([] @ [r]) @ rest" using assms(4) by simp
  then have 3: "SMTP_readResponse ?c2
      = ((r, if rejected r then Some (Errorf (''smtp: '' @ r)) else None), ?c2\<lparr>incoming := rest\<rparr>)"
    using assms(2,3) by (intro SMTP_readResponse_reply [where conts = "[]"]) auto
  show ?thesis
    by (simp only: Send_data_def 1 2 3 prod.case option.case) simp
qed

lemma Send_rejected_rcpt:
  assumes "i < length (To req)"
    and "SMTP_cmd (''MAIL FROM:<'' @ From_req req @ ''>'') c = ((r0, None), c0)"
    and "Send_rcpt (take i (To req)) c0 = (None, c1)"
    and "SMTP_cmd (''RCPT TO:<'' @ To req ! i @ ''>'') c1 = ((r, Some e), c2)"
  shows "Send now req c = (Some (Wrap (''smtp RCPT TO '' @ To req ! i @ '': '') e), c2)"
    and "issued c c2 = mailFrom req # map rcptTo (take (Suc i) (To req))"
proof -
  have split: "To req = take i (To req) @ (To req ! i # drop (Suc i) (To req))"
    using assms(1) by (simp add: id_take_nth_drop [symmetric])
  have "Send_rcpt (take i (To req) @ (To req ! i # drop (Suc i) (To req))) c0
      = (Some (Wrap (''smtp RCPT TO '' @ To req ! i @ '': '') e), c2)"
    using assms(3,4) by (simp add: Send_rcpt_append)
  then have "Send_rcpt (To req) c0 = (Some (Wrap (''smtp RCPT TO '' @ To req ! i @ '': '') e), c2)"
    using split by simp
  then show "Send now req c = (Some (Wrap (''smtp RCPT TO '' @ To req ! i @ '': '') e), c2)"
    using assms(2) by (simp add: Send_def)
  have w0: "writes c0 = writes c @ [mailFrom req]"
    using arg_cong [OF assms(2), of "\<lambda>x. writes (snd x)"] by (simp add: mailFrom_def)
  have w1: "writes c1 = writes c0 @ map rcptTo (take i (To req))"
    using assms(3) by (rule Send_rcpt_None_writes)
  have w2: "writes c2 = writes c1 @ [rcptTo (To req ! i)]"
    using arg_cong [OF assms(4), of "\<lambda>x. writes (snd x)"] by (simp add: rcptTo_def)
  show "issued c c2 = mailFrom req # map rcptTo (take (Suc i) (To req))"
    using w0 w1 w2 assms(1) by (simp add: issued_def take_Suc_conv_app_nth)
qed

lemma Send_rejected_reply:
  assumes "wleft c = None" and "accepted a0" and "list_all accepted rs"
    and "length rs < length (To req)"
    and "wireLine rj" and "\<not> continuation rj" and "rejected rj"
    and "incoming c = wire (a0 # rs @ [rj]) @ rest"
  shows "Send now req c
      = (Some (Wrap (''smtp RCPT TO '' @ To req ! length rs @ '': '') (Errorf (''smtp: '' @ rj))),
         c\<lparr>incoming := rest,
           writes := writes c @ mailFrom req # map rcptTo (take (Suc (length rs)) (To req))\<rparr>)"
proof -
  let ?i = "length rs"
  let ?c0 = "c\<lparr>incoming := wire (rs @ [rj]) @ rest,
                writes := writes c @ [Cmd ((''MAIL FROM:<'' @ From_req req @ ''>'') @ CRLF)]\<rparr>"
  let ?c1 = "?c0\<lparr>incoming := wire [rj] @ rest,
                  writes := writes ?c0 @ map rcptTo (take ?i (To req))\<rparr>"
  let ?c2 = "?c1\<lparr>incoming := wire [] @ rest,
                  writes := writes ?c1 @ [Cmd ((''RCPT TO:<'' @ To req ! ?i @ ''>'') @ CRLF)]\<rparr>"
  have 0: "SMTP_cmd (''MAIL FROM:<'' @ From_req req @ ''>'') c = ((a0, None), ?c0)"
    using assms(1,2,8) by (intro SMTP_cmd_accepted) auto
  have "incoming ?c0 = wire rs @ (wire [rj] @ rest)" by (simp add: wire_def)
  then have 1: "Send_rcpt (take ?i (To req)) ?c0 = (None, ?c1)"
    using assms(1,3,4) by (intro Send_rcpt_accepted) auto
  have 2: "SMTP_cmd (''RCPT TO:<'' @ To req ! ?i @ ''>'') ?c1
      = ((rj, if rejected rj then Some (Errorf (''smtp: '' @ rj)) else None), ?c2)"
    using assms(1,5,6) by (intro SMTP_cmd_final) auto
  then have rj2: "SMTP_cmd (''RCPT TO:<'' @ To req ! ?i @ ''>'') ?c1
      = ((rj, Some (Errorf (''smtp: '' @ rj))), ?c2)"
    using assms(7) by simp
  have "Send now req c
      = (Some (Wrap (''smtp RCPT TO '' @ To req ! ?i @ '': '') (Errorf (''smtp: '' @ rj))), ?c2)"
    using assms(4) 0 1 rj2 by (rule Send_rejected_rcpt(1))
  moreover have "?c2 = c\<lparr>incoming := rest,
           writes := writes c @ mailFrom req # map rcptTo (take (Suc ?i) (To req))\<rparr>"
    using assms(4) by (simp add: mailFrom_def rcptTo_def take_Suc_conv_app_nth)
  ultimately show ?thesis by simp
qed

section \<open>Headers: lemmas\<close>

lemma not_HasPrefix_CRLF: "LF \<notin> set xs \<Longrightarrow> \<not> HasPrefix (x # xs) CRLF"
  by (cases xs) (auto simp: HasPrefix_def)

lemma Index_CRLF_none: "LF \<notin> set l \<Longrightarrow> Index l CRLF = None"
  by (induction l) (simp_all add: not_HasPrefix_CRLF)

lemma Index_CRLF_at: "LF \<notin> set l \<Longrightarrow> Index (l @ CRLF @ s) CRLF = Some (length l)"
proof (induction l)
  case Nil
  show ?case by (simp add: HasPrefix_def)
next
  case (Cons x xs)
  have "\<not> HasPrefix (x # xs @ CRLF @ s) CRLF"
    using Cons.prems by (cases xs) (auto simp: HasPrefix_def)
  then show ?case using Cons by simp
qed

lemma Split_Join_CRLF:
  assumes "ls \<noteq> []" and "\<forall>l\<in>set ls. LF \<notin> set l"
  shows "Split (Join ls CRLF) CRLF = ls"
  using assms
proof (induction ls)
  case Nil
  then show ?case by simp
next
  case (Cons l ls)
  have nl: "LF \<notin> set l" using Cons.prems(2) by simp
  show ?case
  proof (cases ls)
    case Nil
    then show ?thesis
      using Index_CRLF_none [OF nl] by (subst Split.simps) simp
  next
    case (Cons y ys)
    have j: "Join (l # ls) CRLF = l @ CRLF @ Join ls CRLF"
      using Cons by simp
    have "Split (l @ CRLF @ Join ls CRLF) CRLF = l # Split (Join ls CRLF) CRLF"
      using Index_CRLF_at [OF nl, of "Join ls CRLF"] by (subst Split.simps) simp
    moreover have "Split (Join ls CRLF) CRLF = ls"
      using Cons Cons.prems(2) by (intro Cons.IH) auto
    ultimately show ?thesis using j by simp
  qed
qed

lemma find_snoc:
  "find P (xs @ [x]) = (case find P xs of Some y \<Rightarrow> Some y | None \<Rightarrow> if P x then Some x else None)"
  by (induction xs) auto

lemma parseHeaders_loop_value:
  "hget (parseHeaders_loop ls h) name =
     (case find (\<lambda>kv. fst kv = name)
             (rev (List.map_filter header_of (takeWhile (\<lambda>l. l \<noteq> []) ls))) of
        None \<Rightarrow> hget h name
      | Some kv \<Rightarrow> snd kv)"
proof (induction ls arbitrary: h)
  case Nil
  show ?case by (simp add: List.map_filter_simps)
next
  case (Cons l ls)
  let ?rest = "rev (List.map_filter header_of (takeWhile (\<lambda>l. l \<noteq> []) ls))"
  show ?case
  proof (cases "l = []")
    case True
    then show ?thesis by (simp add: List.map_filter_simps)
  next
    case ne: False
    show ?thesis
    proof (cases "header_of l")
      case None
      then have "parseHeaders_loop (l # ls) h = parseHeaders_loop ls h"
        using ne by (auto simp: header_of_def folded_def Cut_def split: if_splits option.splits)
      then show ?thesis
        using ne None Cons.IH [of h] by (simp add: List.map_filter_simps)
    next
      case (Some kv)
      obtain k v where kv: "kv = (k, v)" by (cases kv)
      have step: "parseHeaders_loop (l # ls) h = parseHeaders_loop ls (h(k \<mapsto> v))"
        using ne Some kv by (auto simp: header_of_def folded_def Cut_def split: if_splits option.splits)
      have lst: "rev (List.map_filter header_of (takeWhile (\<lambda>l. l \<noteq> []) (l # ls))) = ?rest @ [(k, v)]"
        using ne Some kv by (simp add: List.map_filter_simps)
      have up: "hget (h(k \<mapsto> v)) name = (if k = name then v else hget h name)"
        by (simp add: hget_def)
      show ?thesis
        unfolding step lst find_snoc Cons.IH up
        by (simp split: option.splits)
    qed
  qed
qed

lemma parseHeaders_Join:
  assumes "\<forall>l\<in>set ls. LF \<notin> set l"
  shows "hget (parseHeaders (Join ls CRLF)) name = header_value name (takeWhile (\<lambda>l. l \<noteq> []) ls)"
proof -
  have "parseHeaders (Join ls CRLF) = parseHeaders_loop ls Map.empty"
  proof (cases ls)
    case Nil
    then show ?thesis by (simp add: parseHeaders_def Split.simps)
  next
    case (Cons a as)
    then show ?thesis
      using Split_Join_CRLF [of ls] assms by (simp add: parseHeaders_def)
  qed
  moreover have "takeWhile (\<lambda>l. l \<noteq> []) (takeWhile (\<lambda>l. l \<noteq> []) ls) = takeWhile (\<lambda>l. l \<noteq> []) ls"
    by simp
  moreover have "hget Map.empty name = []"
    by (simp add: hget_def)
  ultimately show ?thesis
    using parseHeaders_loop_value [of ls Map.empty name]
    by (simp add: header_value_def split: option.splits)
qed

lemma Index_pair_at:
  assumes "a \<noteq> b" and "Index k [a, b] = None"
  shows "Index (k @ a # b # v) [a, b] = Some (length k)"
  using assms(2)
proof (induction k)
  case Nil
  show ?case by (simp add: HasPrefix_def)
next
  case (Cons x xs)
  have n: "\<not> HasPrefix (x # xs) [a, b]" and r: "Index xs [a, b] = None"
    using Cons.prems by (auto split: if_splits)
  have "\<not> HasPrefix (x # xs @ a # b # v) [a, b]"
    using n assms(1) by (cases xs) (auto simp: HasPrefix_def)
  then show ?case
    using Cons.IH [OF r] by simp
qed

lemma header_of_line:
  assumes "\<not> folded (k @ '': '' @ v)" and "Index k '': '' = None"
  shows "header_of (k @ '': '' @ v) = Some (ToLower k, v)"
proof -
  have "Index (k @ CHR '':'' # CHR '' '' # v) '': '' = Some (length k)"
    using assms(2) by (intro Index_pair_at) auto
  then show ?thesis
    using assms(1) by (simp add: header_of_def)
qed

section \<open>Running the model on examples: lemmas\<close>

lemmas run_smtp = SMTP_cmd_def Fprintf_def SMTP_readResponse_def SMTP_readResponse_loop.simps
  ReadString_def TrimRight_def fresh_def wire_def HasPrefix_def

lemma authPlain_example: "authPlain smtp_example = ''AUTH PLAIN AHVzZXIAcGFzcw==''"
  by (simp add: authPlain_def smtp_example_def EncodeToString_def encodeStd_def)

lemma EncodeToString_example:
  "EncodeToString ''user'' = ''dXNlcg=='' \<and> EncodeToString ''pass'' = ''cGFzcw==''"
  by (simp add: EncodeToString_def encodeStd_def)

section \<open>Lines of any stream: lemmas\<close>

lemma set_TrimRight: "set (TrimRight s cutset) \<subseteq> set s"
  by (auto simp: TrimRight_def dest: set_dropWhileD)

lemma readLine_no_LF:
  assumes "readLine c = (Inr l, c')"
  shows "LF \<notin> set l"
proof -
  let ?t = "takeWhile (\<lambda>x. x \<noteq> LF) (incoming c)"
  have l: "l = TrimRight (?t @ [LF]) CRLF"
    using assms by (auto simp: readLine_def ReadString_def Let_def split: if_splits)
  have "TrimRight (?t @ [LF]) CRLF = TrimRight ?t CRLF"
    by (simp add: TrimRight_def)
  then have "set l \<subseteq> set ?t"
    using l set_TrimRight [of ?t CRLF] by simp
  moreover have "LF \<notin> set ?t"
    by (auto dest: set_takeWhileD)
  ultimately show ?thesis by blast
qed

lemma readDot_loop_no_LF:
  "readDot_loop acc c = (Inr ls, c') \<Longrightarrow> \<forall>l\<in>set acc. LF \<notin> set l \<Longrightarrow> \<forall>l\<in>set ls. LF \<notin> set l"
proof (induction acc c rule: readDot_loop.induct)
  case (1 lines c)
  obtain r c1 where rl: "readLine c = (r, c1)" by (metis prod.exhaust)
  show ?case
  proof (cases r)
    case (Inl e)
    then show ?thesis
      using "1.prems"(1) rl by (subst (asm) readDot_loop.simps) simp
  next
    case (Inr line)
    show ?thesis
    proof (cases "line = ''.''")
      case True
      then have "ls = lines"
        using "1.prems"(1) rl Inr by (subst (asm) readDot_loop.simps) simp
      then show ?thesis using "1.prems"(2) by simp
    next
      case False
      then have next_call: "readDot_loop (lines @ [dotUnstuff line]) c1 = (Inr ls, c')"
        using "1.prems"(1) rl Inr by (subst (asm) readDot_loop.simps) simp
      have "LF \<notin> set line"
        using rl Inr readLine_no_LF by blast
      then have "LF \<notin> set (dotUnstuff line)"
        by (auto simp: dotUnstuff_def dest: in_set_dropD)
      then have acc: "\<forall>l\<in>set (lines @ [dotUnstuff line]). LF \<notin> set l"
        using "1.prems"(2) by simp
      have "(r, c1) = readLine c" using rl by simp
      then show ?thesis
        using Inr False next_call acc by (rule "1.IH")
    qed
  qed
qed

lemma readDot_no_LF: "readDot c = (Inr ls, c') \<Longrightarrow> \<forall>l\<in>set ls. LF \<notin> set l"
  using readDot_loop_no_LF [of "[]" c ls c'] by (simp add: readDot_def)

lemma SMTP_readResponse_loop_final:
  "SMTP_readResponse_loop c = (Inr l, c') \<Longrightarrow> \<not> continuation l"
proof (induction c rule: SMTP_readResponse_loop.induct)
  case (1 c)
  obtain line e c1 where r: "ReadString c = ((line, e), c1)"
    by (metis prod.exhaust)
  show ?case
  proof (cases e)
    case (Some err)
    then show ?thesis
      using "1.prems" r by (subst (asm) SMTP_readResponse_loop.simps) simp
  next
    case None
    show ?thesis
    proof (cases "length (TrimRight line CRLF) < 4 \<or> TrimRight line CRLF ! 3 \<noteq> CHR ''-''")
      case True
      then have "l = TrimRight line CRLF"
        using "1.prems" r None by (subst (asm) SMTP_readResponse_loop.simps) auto
      then show ?thesis
        using True by (auto simp: continuation_def)
    next
      case False
      then have next_call: "SMTP_readResponse_loop c1 = (Inr l, c')"
        using "1.prems" r None by (subst (asm) SMTP_readResponse_loop.simps) auto
      have "((line, e), c1) = ReadString c" and "(line, e) = (line, e)"
        using r by simp_all
      then show ?thesis
        using None False next_call by (rule "1.IH")
    qed
  qed
qed

lemma POP3_Top_lines:
  assumes "POP3_cmd (''TOP '' @ Itoa n @ '' '' @ Itoa k) c = (Inr st, c1)"
    and "readDot c1 = (Inr lines, c2)"
  shows "\<exists>m. POP3_Top n k c = (Inr m, c2)
          \<and> From m = header_value ''from'' (takeWhile (\<lambda>l. l \<noteq> []) lines)
          \<and> Subject m = header_value ''subject'' (takeWhile (\<lambda>l. l \<noteq> []) lines)
          \<and> Date m = header_value ''date'' (takeWhile (\<lambda>l. l \<noteq> []) lines)"
proof -
  have nl: "\<forall>l\<in>set lines. LF \<notin> set l"
    using assms(2) by (rule readDot_no_LF)
  define msg where "msg = \<lparr>ID = n, Size = 0, From = hget (parseHeaders (Join lines CRLF)) ''from'',
      Subject = hget (parseHeaders (Join lines CRLF)) ''subject'',
      Date = hget (parseHeaders (Join lines CRLF)) ''date'', Body = []\<rparr>"
  define res where "res = (if k > 0 then (case SplitN (Join lines CRLF) (CRLF @ CRLF) 2 of
                              [a, b] \<Rightarrow> msg\<lparr>Body := b\<rparr> | _ \<Rightarrow> msg)
             else msg)"
  have f: "From res = From msg \<and> Subject res = Subject msg \<and> Date res = Date msg"
    unfolding res_def by (simp split: list.splits)
  have "POP3_Top n k c = (Inr res, c2)"
    by (simp only: POP3_Top_def assms prod.case sum.case Let_def msg_def res_def)
  then show ?thesis
    using f parseHeaders_Join [OF nl] by (simp add: msg_def)
qed

lemmas run_pop3 = POP3_cmd_def Fprintf_def POP3_readResponse_def readLine_def ReadString_def
  TrimRight_def readDot_def readDot_loop.simps dotUnstuff_def fresh_def wire_def HasPrefix_def

section \<open>Commands on the wire: lemmas\<close>

lemma Split_not_Nil: "Split s sep \<noteq> []"
  by (subst Split.simps) (simp split: option.splits)

lemma Split_LF_cons: "LF \<notin> set l \<Longrightarrow> Split (l @ LF # s) [LF] = l # Split s [LF]"
proof -
  assume "LF \<notin> set l"
  then have "takeWhile (\<lambda>x. x \<noteq> LF) (l @ LF # s) = l"
    by (induction l) auto
  then have "Index (l @ LF # s) [LF] = Some (length l)"
    by (simp add: Index_char)
  then show ?thesis
    by (subst Split.simps) simp
qed

lemma Split_LF_pieces: "l \<in> set (Split s [LF]) \<Longrightarrow> LF \<notin> set l"
proof (induction "length s" arbitrary: s rule: less_induct)
  case less
  show ?case
  proof (cases "LF \<in> set s")
    case False
    then have "Split s [LF] = [s]"
      by (subst Split.simps) (simp add: Index_char)
    then show ?thesis using less.prems False by simp
  next
    case True
    define a where "a = takeWhile (\<lambda>x. x \<noteq> LF) s"
    define b where "b = tl (dropWhile (\<lambda>x. x \<noteq> LF) s)"
    have "dropWhile (\<lambda>x. x \<noteq> LF) s \<noteq> []" using True by simp
    moreover have "hd (dropWhile (\<lambda>x. x \<noteq> LF) s) = LF"
      using hd_dropWhile [of "\<lambda>x. x \<noteq> LF" s] calculation by simp
    ultimately have d: "dropWhile (\<lambda>x. x \<noteq> LF) s = LF # b"
      unfolding b_def by (cases "dropWhile (\<lambda>x. x \<noteq> LF) s") auto
    have s: "s = a @ LF # b"
      using takeWhile_dropWhile_id [of "\<lambda>x. x \<noteq> LF" s] d a_def by simp
    have na: "LF \<notin> set a"
      unfolding a_def by (auto dest: set_takeWhileD)
    have "Split s [LF] = a # Split b [LF]"
      unfolding s using na by (rule Split_LF_cons)
    then have "l = a \<or> l \<in> set (Split b [LF])"
      using less.prems by simp
    moreover have "LF \<notin> set l" if "l \<in> set (Split b [LF])"
      using that s by (intro less.hyps [of b]) simp_all
    ultimately show ?thesis using na by blast
  qed
qed

lemma received_Nil [simp]: "received [] = []"
  by (simp add: received_def Split.simps)

lemma received_line: "LF \<notin> set x \<Longrightarrow> received (x @ CRLF @ s) = x # received s"
proof -
  assume "LF \<notin> set x"
  then have "Split ((x @ [CR]) @ LF # s) [LF] = (x @ [CR]) # Split s [LF]"
    by (intro Split_LF_cons) simp
  then show ?thesis
    using Split_not_Nil [of s "[LF]"] by (simp add: received_def chomp_def)
qed

lemma sent_simps [simp]:
  "sent [] = []" "sent (w # ws) = bytes w @ sent ws" "sent (us @ ws) = sent us @ sent ws"
  by (simp_all add: sent_def)

lemma received_sent_lines:
  "\<forall>w\<in>set ws. LF \<notin> set (f w) \<and> bytes w = f w @ CRLF \<Longrightarrow> received (sent ws) = map f ws"
proof (induction ws)
  case Nil
  show ?case by simp
next
  case (Cons w ws)
  have "received (f w @ CRLF @ sent ws) = f w # received (sent ws)"
    using Cons.prems by (intro received_line) simp
  then show ?case using Cons by simp
qed

lemma commands_message: "''.'' \<notin> set ds \<Longrightarrow> commands True (take n (ds @ [''.''])) = []"
proof (induction ds arbitrary: n)
  case Nil
  show ?case by (cases n) simp_all
next
  case (Cons d ds)
  then show ?case by (cases n) (auto simp del: take_append)
qed

lemma commands_script:
  "''DATA'' \<notin> set xs \<Longrightarrow> ''.'' \<notin> set ds \<Longrightarrow>
   commands False (take n (xs @ ''DATA'' # ds @ [''.''])) = take n (xs @ [''DATA''])"
proof (induction xs arbitrary: n)
  case Nil
  then show ?case by (cases n) (simp_all add: commands_message del: take_append)
next
  case (Cons x xs)
  then show ?case by (cases n) (auto simp del: take_append)
qed

lemma Send_lines_None_writes:
  "Send_lines ls c = (None, c') \<Longrightarrow> writes c' = writes c @ map dataLine ls"
proof (induction ls arbitrary: c)
  case Nil
  then show ?case by simp
next
  case (Cons l ls)
  obtain e c1 where 1: "Fprintf (dataLine l) c = (e, c1)"
    by (metis prod.exhaust)
  have w: "writes c1 = writes c @ [dataLine l]"
    using arg_cong [OF 1, of "\<lambda>x. writes (snd x)"] by simp
  have e: "e = None" and 2: "Send_lines ls c1 = (None, c')"
    using Cons.prems 1 by (cases e; simp add: dataLine_def)+
  show ?case
    using Cons.IH [OF 2] w by simp
qed

lemma Send_lines_shape:
  "\<exists>k\<le>length ls. writes (snd (Send_lines ls c)) = writes c @ map dataLine (take k ls)"
proof (induction ls arbitrary: c)
  case Nil
  show ?case by simp
next
  case (Cons l ls)
  obtain e c' where 1: "Fprintf (dataLine l) c = (e, c')"
    by (metis prod.exhaust)
  have w: "writes c' = writes c @ [dataLine l]"
    using arg_cong [OF 1, of "\<lambda>x. writes (snd x)"] by simp
  show ?case
  proof (cases e)
    case None
    obtain k where "k \<le> length ls"
      and "writes (snd (Send_lines ls c')) = writes c' @ map dataLine (take k ls)"
      using Cons.IH by blast
    then have "Suc k \<le> length (l # ls)
      \<and> writes (snd (Send_lines (l # ls) c)) = writes c @ map dataLine (take (Suc k) (l # ls))"
      using 1 None w by (simp add: dataLine_def)
    then show ?thesis by blast
  next
    case (Some err)
    then have "Suc 0 \<le> length (l # ls)
      \<and> writes (snd (Send_lines (l # ls) c)) = writes c @ map dataLine (take (Suc 0) (l # ls))"
      using 1 w by (simp add: dataLine_def)
    then show ?thesis by blast
  qed
qed

lemma Send_rcpt_shape:
  "\<exists>k\<le>length tos. writes (snd (Send_rcpt tos c)) = writes c @ map rcptTo (take k tos)"
proof -
  obtain k where k: "writes (snd (Send_rcpt tos c)) = writes c @ map rcptTo (take k tos)"
    using Send_rcpt_writes by blast
  have "take k tos = take (min k (length tos)) tos"
    by (simp add: min_def)
  then have "min k (length tos) \<le> length tos
    \<and> writes (snd (Send_rcpt tos c)) = writes c @ map rcptTo (take (min k (length tos)) tos)"
    using k by simp
  then show ?thesis by blast
qed

lemma Send_data_shape:
  "\<exists>n. writes (snd (Send_data now req c))
       = writes c @ take n (map dataLine (Split (Send_msg now req) [LF]) @ [Data (''.'' @ CRLF)])"
proof -
  let ?ls = "Split (Send_msg now req) [LF]"
  let ?all = "map dataLine ?ls @ [Data (''.'' @ CRLF)]"
  obtain e1 c1 where 1: "Send_lines ?ls c = (e1, c1)" by (metis prod.exhaust)
  obtain e2 c2 where 2: "Fprintf (Data (''.'' @ CRLF)) c1 = (e2, c2)" by (metis prod.exhaust)
  have w2: "writes c2 = writes c1 @ [Data (''.'' @ CRLF)]"
    using arg_cong [OF 2, of "\<lambda>x. writes (snd x)"] by simp
  obtain r e3 c3 where 3: "SMTP_readResponse c2 = ((r, e3), c3)" by (metis prod.exhaust)
  have w3: "writes c3 = writes c2"
    using arg_cong [OF 3, of "\<lambda>x. writes (snd x)"] by simp
  show ?thesis
  proof (cases e1)
    case (Some err)
    obtain k where k: "k \<le> length ?ls" and w1: "writes c1 = writes c @ map dataLine (take k ?ls)"
      using Send_lines_shape [of ?ls c] 1 by auto
    have "take k ?all = map dataLine (take k ?ls)"
      using k by (simp add: take_map)
    moreover have "snd (Send_data now req c) = c1"
      using 1 Some by (simp add: Send_data_def)
    ultimately have "writes (snd (Send_data now req c)) = writes c @ take k ?all"
      using w1 by simp
    then show ?thesis by blast
  next
    case None
    have w1: "writes c1 = writes c @ map dataLine ?ls"
      using 1 None by (intro Send_lines_None_writes) simp
    have "snd (Send_data now req c) = c2 \<or> snd (Send_data now req c) = c3"
      using 1 2 3 None by (cases e2; cases e3) (simp_all add: Send_data_def)
    then have "writes (snd (Send_data now req c)) = writes c @ take (length ?all) ?all"
      using w1 w2 w3 by auto
    then show ?thesis by blast
  qed
qed

lemma Send_shape:
  "\<exists>n. issued c (snd (Send now req c)) = take (Suc n) (script now req)"
proof -
  let ?ds = "map dataLine (Split (Send_msg now req) [LF]) @ [Data (''.'' @ CRLF)]"
  obtain r0 e0 c0 where 0: "SMTP_cmd (''MAIL FROM:<'' @ From_req req @ ''>'') c = ((r0, e0), c0)"
    by (metis prod.exhaust)
  have w0: "writes c0 = writes c @ [mailFrom req]"
    using arg_cong [OF 0, of "\<lambda>x. writes (snd x)"] by (simp add: mailFrom_def)
  obtain e1 c1 where 1: "Send_rcpt (To req) c0 = (e1, c1)"
    by (metis prod.exhaust)
  obtain r2 e2 c2 where 2: "SMTP_cmd ''DATA'' c1 = ((r2, e2), c2)"
    by (metis prod.exhaust)
  have w2: "writes c2 = writes c1 @ [Cmd (''DATA'' @ CRLF)]"
    using arg_cong [OF 2, of "\<lambda>x. writes (snd x)"] by simp
  obtain n where w3: "writes (snd (Send_data now req c2)) = writes c2 @ take n ?ds"
    using Send_data_shape by blast
  consider (a) "e0 \<noteq> None" | (b) "e0 = None" "e1 \<noteq> None" | (c) "e0 = None" "e1 = None" "e2 \<noteq> None"
    | (d) "e0 = None" "e1 = None" "e2 = None"
    by blast
  then show ?thesis
  proof cases
    case a
    then have "snd (Send now req c) = c0" using 0 by (auto simp: Send_def)
    then have "issued c (snd (Send now req c)) = take (Suc 0) (script now req)"
      using w0 by (simp add: issued_def script_def)
    then show ?thesis by blast
  next
    case b
    obtain k where k: "k \<le> length (To req)"
      and w1: "writes c1 = writes c0 @ map rcptTo (take k (To req))"
      using Send_rcpt_shape [of "To req" c0] 1 by auto
    have "snd (Send now req c) = c1" using b 0 1 by (auto simp: Send_def)
    then have "issued c (snd (Send now req c)) = take (Suc k) (script now req)"
      using w0 w1 k by (simp add: issued_def script_def take_map)
    then show ?thesis by blast
  next
    case c
    have w1: "writes c1 = writes c0 @ map rcptTo (To req)"
      using 1 c by (intro Send_rcpt_None_writes) simp
    have "snd (Send now req c) = c2" using c 0 1 2 by (auto simp: Send_def)
    then have "issued c (snd (Send now req c)) = take (Suc (Suc (length (To req)))) (script now req)"
      using w0 w1 w2 by (simp add: issued_def script_def)
    then show ?thesis by blast
  next
    case d
    have w1: "writes c1 = writes c0 @ map rcptTo (To req)"
      using 1 d by (intro Send_rcpt_None_writes) simp
    have "snd (Send now req c) = snd (Send_data now req c2)" using d 0 1 2 by (auto simp: Send_def)
    then have "issued c (snd (Send now req c))
        = take (Suc (Suc (length (To req)) + n)) (script now req)"
      using w0 w1 w2 w3 by (simp add: issued_def script_def)
    then show ?thesis by blast
  qed
qed

lemma Send_issued_take:
  "issued c (snd (Send now req c)) \<noteq> []
   \<and> issued c (snd (Send now req c))
       = take (length (issued c (snd (Send now req c)))) (script now req)"
proof -
  obtain n where n: "issued c (snd (Send now req c)) = take (Suc n) (script now req)"
    using Send_shape by blast
  have "script now req \<noteq> []" by (simp add: script_def)
  then have "take (Suc n) (script now req) \<noteq> []" by (cases "script now req") simp_all
  moreover have "take (length (take (Suc n) (script now req))) (script now req)
      = take (Suc n) (script now req)"
    by (simp add: min_def)
  ultimately show ?thesis using n by simp
qed

lemma dotStuff_not_dot: "dotStuff l \<noteq> ''.''"
  by (cases l) (auto simp: dotStuff_def HasPrefix_def)

lemma dataLine_line: "LF \<notin> set l \<Longrightarrow> LF \<notin> set (dotStuff (TrimRight l [CR]))"
proof -
  assume "LF \<notin> set l"
  then have "LF \<notin> set (TrimRight l [CR])"
    using set_TrimRight [of l "[CR]"] by blast
  then show ?thesis
    by (simp add: dotStuff_def)
qed

lemma messageLines_no_dot: "''.'' \<notin> set (messageLines now req)"
proof
  assume "''.'' \<in> set (messageLines now req)"
  then obtain l where "dotStuff (TrimRight l [CR]) = ''.''"
    by (auto simp: messageLines_def)
  then show False using dotStuff_not_dot by blast
qed

lemma script_received:
  assumes "LF \<notin> set (From_req req)" and "\<forall>to\<in>set (To req). LF \<notin> set to"
  shows "received (sent (take n (script now req))) = take n (scriptLines now req)"
proof -
  let ?f = "\<lambda>w. butlast (butlast (bytes w))"
  let ?ls = "Split (Send_msg now req) [LF]"
  have pieces: "\<forall>l\<in>set ?ls. LF \<notin> set l"
    using Split_LF_pieces by blast
  have one: "\<forall>w\<in>set (script now req). LF \<notin> set (?f w) \<and> bytes w = ?f w @ CRLF"
    using assms pieces dataLine_line
    by (auto simp: script_def mailFrom_def rcptTo_def dataLine_def butlast_append)
  then have "\<forall>w\<in>set (take n (script now req)). LF \<notin> set (?f w) \<and> bytes w = ?f w @ CRLF"
    by (meson in_set_takeD)
  then have "received (sent (take n (script now req))) = map ?f (take n (script now req))"
    by (rule received_sent_lines)
  also have "\<dots> = take n (map ?f (script now req))"
    by (simp add: take_map)
  also have "map ?f (script now req) = scriptLines now req"
    by (simp add: script_def mailFrom_def rcptTo_def dataLine_def butlast_append
        mailFromLine_def rcptLine_def scriptLines_def messageLines_def)
  finally show ?thesis .
qed

lemma script_commands:
  "commands False (take n (scriptLines now req))
     = take n (mailFromLine req # map rcptLine (To req) @ [''DATA''])"
proof -
  have 1: "''DATA'' \<notin> set (mailFromLine req # map rcptLine (To req))"
    by (auto simp: mailFromLine_def rcptLine_def)
  show ?thesis
    using commands_script [OF 1 messageLines_no_dot, of n now req]
    by (simp add: scriptLines_def)
qed

lemma script_lines:
  assumes "LF \<notin> set (From_req req)" and "\<forall>to\<in>set (To req). LF \<notin> set to"
  shows "commands False (received (sent (take n (script now req))))
       = take n (mailFromLine req # map rcptLine (To req) @ [''DATA''])"
  using script_received [OF assms] script_commands by simp

lemma Send_received:
  assumes "LF \<notin> set (From_req req)" and "\<forall>to\<in>set (To req). LF \<notin> set to"
  shows "received (sent (issued c (snd (Send now req c))))
       = take (length (issued c (snd (Send now req c)))) (scriptLines now req)"
proof -
  have "issued c (snd (Send now req c))
      = take (length (issued c (snd (Send now req c)))) (script now req)"
    using Send_issued_take by blast
  then have "received (sent (issued c (snd (Send now req c))))
      = received (sent (take (length (issued c (snd (Send now req c)))) (script now req)))"
    by simp
  then show ?thesis
    using script_received [OF assms] by simp
qed

lemma Send_commands:
  assumes "LF \<notin> set (From_req req)" and "\<forall>to\<in>set (To req). LF \<notin> set to"
  shows "commandsReceived c (snd (Send now req c))
       = take (length (issued c (snd (Send now req c))))
           (mailFromLine req # map rcptLine (To req) @ [''DATA''])"
proof -
  have "issued c (snd (Send now req c))
      = take (length (issued c (snd (Send now req c)))) (script now req)"
    using Send_issued_take by blast
  then have "commandsReceived c (snd (Send now req c))
      = commands False (received (sent (take (length (issued c (snd (Send now req c))))
          (script now req))))"
    by (simp add: commandsReceived_def)
  then show ?thesis
    using script_lines [OF assms] by simp
qed

lemma filter_take_Nil: "\<forall>x\<in>set xs. \<not> P x \<Longrightarrow> filter P (take n xs) = []"
  by (auto simp: filter_empty_conv dest: in_set_takeD)

lemma kinds_of_lines [simp]:
  "isMailFromLine (mailFromLine req)" "\<not> isRcptLine (mailFromLine req)"
  "isRcptLine (rcptLine to)" "\<not> isMailFromLine (rcptLine to)"
  "\<not> isMailFromLine ''DATA''" "\<not> isRcptLine ''DATA''"
  by (simp_all add: isMailFromLine_def isRcptLine_def mailFromLine_def rcptLine_def HasPrefix_def)


lemma commands_rcpts:
  assumes "LF \<notin> set (From_req req)" and "\<forall>to\<in>set (To req). LF \<notin> set to"
    and "n \<le> length (To req)"
  shows "commands False (received (sent (mailFrom req # map rcptTo (take n (To req)))))
       = mailFromLine req # map rcptLine (take n (To req))"
proof -
  have "take (Suc n) (script now req) = mailFrom req # map rcptTo (take n (To req))" for now
    using assms(3) by (simp add: script_def take_map)
  then have "commands False (received (sent (mailFrom req # map rcptTo (take n (To req)))))
      = take (Suc n) (mailFromLine req # map rcptLine (To req) @ [''DATA''])"
    using script_lines [OF assms(1,2), of "Suc n" "[]"] by simp
  then show ?thesis
    using assms(3) by (simp add: take_map)
qed

lemma one_MAIL_FROM:
  "length (filter isMailFromLine (take (Suc m) (mailFromLine req # map rcptLine tos @ [''DATA'']))) = 1"
proof -
  have "filter isMailFromLine (take m (map rcptLine tos @ [''DATA''])) = []"
    by (rule filter_take_Nil) auto
  then show ?thesis by simp
qed

section \<open>The claims\<close>

text \<open>
  Claim C1, as amended. Whenever \<^verbatim>\<open>LIST\<close> is accepted and the block is read, \<^verbatim>\<open>List\<close>
  returns, in the order received, one message for every line of the block that still holds
  a space once its surrounding white space is trimmed: the text before the first space is
  the id field and the text after it the size field. A line left without a space is
  skipped. Each field counts as the number \<^verbatim>\<open>Atoi\<close> returns, its error dropped: when the
  leading digits of the field (after an optional sign) exceed 64 bits, the nearest bound of
  \<^verbatim>\<open>int\<close>, whatever follows those digits; else 0 when the field has no digit or holds
  anything but digits; else the value of the digits with the sign, brought into the range
  of \<^verbatim>\<open>int\<close>. On the wire: after a status line that is not \<^verbatim>\<open>-ERR\<close>, the lines of the block
  are the unstuffed lines up to the lone dot, and the bytes after the block stay unread. A
  line \<^verbatim>\<open>"<id> <size>"\<close> of two decimal numbers below \<open>2^63\<close> yields exactly \<open>(id, size)\<close>.
\<close>

theorem List_returns_two_field_lines:
  "(POP3_cmd ''LIST'' c = (Inr st, c1) \<and> readDot c1 = (Inr lines, c2)
    \<longrightarrow> POP3_List c = (Inr (List.map_filter entry lines), c2))
   \<and> (wleft c \<noteq> Some 0 \<and> wireLine status \<and> \<not> HasPrefix status ''-ERR''
      \<and> (\<forall>l\<in>set block. wireLine l \<and> l \<noteq> ''.'')
      \<and> incoming c = wire (status # block @ [''.'']) @ rest
    \<longrightarrow> fst (POP3_List c) = Inr (List.map_filter entry (map dotUnstuff block))
        \<and> incoming (snd (POP3_List c)) = rest)
   \<and> (\<forall>l. CHR '' '' \<notin> set (TrimSpace l) \<longrightarrow> entry l = None)
   \<and> (\<forall>l a b. twoFields l = Some (a, b) \<longrightarrow>
         entry l = Some \<lparr>ID = fieldValue a, Size = fieldValue b,
                          From = [], Subject = [], Date = [], Body = []\<rparr>)
   \<and> (\<forall>f. fst (Atoi f) = fieldValue f)
   \<and> (\<forall>i n. 0 \<le> i \<and> i < 2 ^ 63 \<and> 0 \<le> n \<and> n < 2 ^ 63 \<longrightarrow>
         entry (Itoa i @ '' '' @ Itoa n)
           = Some \<lparr>ID = i, Size = n, From = [], Subject = [], Date = [], Body = []\<rparr>)"
proof -
  have a: "POP3_List c = (Inr (List.map_filter entry lines), c2)"
    if "POP3_cmd ''LIST'' c = (Inr st, c1) \<and> readDot c1 = (Inr lines, c2)"
    using that by (simp add: POP3_List_def List_loop_entries)
  have b: "fst (POP3_List c) = Inr (List.map_filter entry (map dotUnstuff block))
        \<and> incoming (snd (POP3_List c)) = rest"
    if "wleft c \<noteq> Some 0 \<and> wireLine status \<and> \<not> HasPrefix status ''-ERR''
      \<and> (\<forall>l\<in>set block. wireLine l \<and> l \<noteq> ''.'')
      \<and> incoming c = wire (status # block @ [''.'']) @ rest"
    using that POP3_List_block [of c status block rest] by blast
  have f: "entry l = Some \<lparr>ID = fieldValue a, Size = fieldValue b,
                          From = [], Subject = [], Date = [], Body = []\<rparr>"
    if "twoFields l = Some (a, b)" for l a b
    using that by (simp add: entry_def Atoi_fieldValue)
  show ?thesis
    using a b f Atoi_fieldValue entry_no_space entry_wellformed by blast
qed

text \<open>
  The example of the claim: the block \<^verbatim>\<open>"1 100"\<close>, \<^verbatim>\<open>"garbage"\<close>, \<^verbatim>\<open>"2 200"\<close>, \<^verbatim>\<open>"."\<close> yields
  the messages (1, 100) and (2, 200). The line \<^verbatim>\<open>"7 99999999999999999999x"\<close> yields the
  message with id 7 and the greatest \<^verbatim>\<open>int\<close> as its size.
\<close>

theorem List_returns_two_field_lines_witness:
  "POP3_cmd ''LIST'' (fresh (wire [''+OK'', ''1 100'', ''garbage'', ''2 200'', ''.'']))
     = (Inr ''+OK'',
        \<lparr>incoming = wire [''1 100'', ''garbage'', ''2 200'', ''.''],
         writes = [Cmd (''LIST'' @ CRLF)], wleft = None, tls = False, closed = False\<rparr>)
   \<and> readDot \<lparr>incoming = wire [''1 100'', ''garbage'', ''2 200'', ''.''],
         writes = [Cmd (''LIST'' @ CRLF)], wleft = None, tls = False, closed = False\<rparr>
     = (Inr [''1 100'', ''garbage'', ''2 200''],
        \<lparr>incoming = [], writes = [Cmd (''LIST'' @ CRLF)], wleft = None, tls = False,
         closed = False\<rparr>)
   \<and> wleft (fresh (wire [''+OK'', ''1 100'', ''garbage'', ''2 200'', ''.''])) \<noteq> Some 0
   \<and> wireLine ''+OK'' \<and> \<not> HasPrefix ''+OK'' ''-ERR''
   \<and> list_all (\<lambda>l. wireLine l \<and> l \<noteq> ''.'') [''1 100'', ''garbage'', ''2 200'']
   \<and> POP3_List (fresh (wire [''+OK'', ''1 100'', ''garbage'', ''2 200'', ''.'']))
       = (Inr [\<lparr>ID = 1, Size = 100, From = [], Subject = [], Date = [], Body = []\<rparr>,
               \<lparr>ID = 2, Size = 200, From = [], Subject = [], Date = [], Body = []\<rparr>],
          \<lparr>incoming = [], writes = [Cmd (''LIST'' @ CRLF)], wleft = None, tls = False,
           closed = False\<rparr>)
   \<and> CHR '' '' \<notin> set (TrimSpace ''garbage'') \<and> entry ''garbage'' = None
   \<and> twoFields ''7 99999999999999999999x'' = Some (''7'', ''99999999999999999999x'')
   \<and> entry ''7 99999999999999999999x''
       = Some \<lparr>ID = 7, Size = 9223372036854775807, From = [], Subject = [], Date = [],
               Body = []\<rparr>
   \<and> fst (Atoi ''12x'') = 0 \<and> fst (Atoi ''-9223372036854775809'') = - 9223372036854775808
   \<and> (0::int) \<le> 2 \<and> (2::int) < 2 ^ 63 \<and> (0::int) \<le> 200 \<and> (200::int) < 2 ^ 63
   \<and> entry (Itoa 2 @ '' '' @ Itoa 200)
       = Some \<lparr>ID = 2, Size = 200, From = [], Subject = [], Date = [], Body = []\<rparr>"
proof -
  note t = List_returns_two_field_lines
    [of "fresh (wire [''+OK'', ''1 100'', ''garbage'', ''2 200'', ''.''])" "''+OK''"
        "\<lparr>incoming = wire [''1 100'', ''garbage'', ''2 200'', ''.''],
          writes = [Cmd (''LIST'' @ CRLF)], wleft = None, tls = False, closed = False\<rparr>"
        "[''1 100'', ''garbage'', ''2 200'']"
        "\<lparr>incoming = [], writes = [Cmd (''LIST'' @ CRLF)], wleft = None, tls = False,
          closed = False\<rparr>"
        "''+OK''" "[''1 100'', ''garbage'', ''2 200'']" "[]"]
  have old: "POP3_cmd ''LIST'' (fresh (wire [''+OK'', ''1 100'', ''garbage'', ''2 200'', ''.'']))
     = (Inr ''+OK'',
        \<lparr>incoming = wire [''1 100'', ''garbage'', ''2 200'', ''.''],
         writes = [Cmd (''LIST'' @ CRLF)], wleft = None, tls = False, closed = False\<rparr>)
   \<and> readDot \<lparr>incoming = wire [''1 100'', ''garbage'', ''2 200'', ''.''],
         writes = [Cmd (''LIST'' @ CRLF)], wleft = None, tls = False, closed = False\<rparr>
     = (Inr [''1 100'', ''garbage'', ''2 200''],
        \<lparr>incoming = [], writes = [Cmd (''LIST'' @ CRLF)], wleft = None, tls = False,
         closed = False\<rparr>)
   \<and> wleft (fresh (wire [''+OK'', ''1 100'', ''garbage'', ''2 200'', ''.''])) \<noteq> Some 0
   \<and> wireLine ''+OK'' \<and> \<not> HasPrefix ''+OK'' ''-ERR''
   \<and> list_all (\<lambda>l. wireLine l \<and> l \<noteq> ''.'') [''1 100'', ''garbage'', ''2 200'']
   \<and> POP3_List (fresh (wire [''+OK'', ''1 100'', ''garbage'', ''2 200'', ''.'']))
       = (Inr [\<lparr>ID = 1, Size = 100, From = [], Subject = [], Date = [], Body = []\<rparr>,
               \<lparr>ID = 2, Size = 200, From = [], Subject = [], Date = [], Body = []\<rparr>],
          \<lparr>incoming = [], writes = [Cmd (''LIST'' @ CRLF)], wleft = None, tls = False,
           closed = False\<rparr>)
   \<and> CHR '' '' \<notin> set (TrimSpace ''garbage'') \<and> entry ''garbage'' = None
   \<and> (0::int) \<le> 2 \<and> (2::int) < 2 ^ 63 \<and> (0::int) \<le> 200 \<and> (200::int) < 2 ^ 63
   \<and> entry (Itoa 2 @ '' '' @ Itoa 200)
       = Some \<lparr>ID = 2, Size = 200, From = [], Subject = [], Date = [], Body = []\<rparr>"
    using t [THEN conjunct1] t [THEN conjunct2, THEN conjunct1]
      t [THEN conjunct2, THEN conjunct2, THEN conjunct1]
      t [THEN conjunct2, THEN conjunct2, THEN conjunct2, THEN conjunct2, THEN conjunct2]
    by (simp add: run_pop3 wireLine_def entry_eval)
  have tf: "twoFields ''7 99999999999999999999x'' = Some (''7'', ''99999999999999999999x'')"
    by (simp add: entry_eval)
  have "entry ''7 99999999999999999999x''
       = Some \<lparr>ID = fieldValue ''7'', Size = fieldValue ''99999999999999999999x'',
               From = [], Subject = [], Date = [], Body = []\<rparr>"
    using t tf by blast
  moreover have "fieldValue ''7'' = 7"
    by (simp add: fieldValue_def HasPrefix_def isDigit_def digitVal_def Let_def)
  ultimately have e: "entry ''7 99999999999999999999x''
       = Some \<lparr>ID = 7, Size = 9223372036854775807, From = [], Subject = [], Date = [],
               Body = []\<rparr>"
    by (simp add: fieldValue_examples)
  have "fst (Atoi ''12x'') = fieldValue ''12x''"
    and "fst (Atoi ''-9223372036854775809'') = fieldValue ''-9223372036854775809''"
    using t by blast+
  then have v: "fst (Atoi ''12x'') = 0
      \<and> fst (Atoi ''-9223372036854775809'') = - 9223372036854775808"
    by (simp add: fieldValue_examples)
  show ?thesis
    using old tf e v by simp
qed

text \<open>
  Claim C1 as the specification states it fails: the line \<^verbatim>\<open>"foo bar"\<close> is not of the shape
  \<^verbatim>\<open>"<id> <size>"\<close>, and \<^verbatim>\<open>List\<close> does not skip it but returns the message (0, 0) for it.
\<close>

theorem List_skips_malformed_counterexample:
  "\<not> spec_entry_shape ''foo bar''
   \<and> fst (POP3_List (fresh (wire [''+OK'', ''foo bar'', ''.''])))
       = Inr [\<lparr>ID = 0, Size = 0, From = [], Subject = [], Date = [], Body = []\<rparr>]"
proof -
  have "fst (POP3_List (fresh (wire [''+OK'', ''foo bar'', ''.''])))
          = Inr (List.map_filter entry (map dotUnstuff [''foo bar'']))"
    by (rule POP3_List_block(1) [where status = "''+OK''" and rest = "[]"])
       (simp_all add: fresh_def wire_def wireLine_def HasPrefix_def)
  moreover have "List.map_filter entry (map dotUnstuff [''foo bar''])
          = [\<lparr>ID = 0, Size = 0, From = [], Subject = [], Date = [], Body = []\<rparr>]"
    by (simp add: entry_eval)
  moreover have "\<not> spec_entry_shape ''foo bar''"
    by (simp add: spec_entry_shape_def isDigit_def)
  ultimately show ?thesis by simp
qed

text \<open>
  Claim C2, as amended. After the dial, \<^verbatim>\<open>Connect\<close> reads exactly one line. It fails, with
  the error \<^verbatim>\<open>pop3 greeting: pop3: \<close> and the line, and closes the connection, exactly when
  the line starts with \<^verbatim>\<open>-ERR\<close>; every other greeting is accepted, \<^verbatim>\<open>+OK\<close> or not, and
  a \<^verbatim>\<open>+OK\<close> greeting always is. It also fails when the dial fails or the line cannot be
  read.
\<close>

theorem POP3_Connect_fails_on_ERR_only:
  "(dial (UseSSL_pop3 cfg) (Host_pop3 cfg @ '':'' @ Itoa (Port_pop3 cfg)) = Inl e
      \<longrightarrow> POP3_Connect dial cfg
            = (Some (Wrap (''pop3 connect '' @ Host_pop3 cfg @ '':'' @ Itoa (Port_pop3 cfg) @ '': '') e),
               None))
   \<and> (dial (UseSSL_pop3 cfg) (Host_pop3 cfg @ '':'' @ Itoa (Port_pop3 cfg)) = Inr c
        \<and> readLine (c\<lparr>tls := UseSSL_pop3 cfg\<rparr>) = (Inr g, c')
      \<longrightarrow> POP3_Connect dial cfg
            = (if HasPrefix g ''-ERR''
               then (Some (Wrap ''pop3 greeting: '' (Errorf (''pop3: '' @ g))),
                     Some (c'\<lparr>closed := True\<rparr>))
               else (None, Some c'))
          \<and> (HasPrefix g ''+OK'' \<longrightarrow> fst (POP3_Connect dial cfg) = None))
   \<and> (dial (UseSSL_pop3 cfg) (Host_pop3 cfg @ '':'' @ Itoa (Port_pop3 cfg)) = Inr c
        \<and> readLine (c\<lparr>tls := UseSSL_pop3 cfg\<rparr>) = (Inl e, c')
      \<longrightarrow> POP3_Connect dial cfg
            = (Some (Wrap ''pop3 greeting: '' e), Some (c'\<lparr>closed := True\<rparr>)))
   \<and> (wireLine w \<and> incoming c = w @ CRLF @ rest
      \<longrightarrow> readLine (c\<lparr>tls := UseSSL_pop3 cfg\<rparr>)
            = (Inr w, c\<lparr>incoming := rest, tls := UseSSL_pop3 cfg\<rparr>))"
proof -
  let ?addr = "Host_pop3 cfg @ '':'' @ Itoa (Port_pop3 cfg)"
  let ?c = "c\<lparr>tls := UseSSL_pop3 cfg\<rparr>"
  have a: "POP3_Connect dial cfg = (Some (Wrap (''pop3 connect '' @ ?addr @ '': '') e), None)"
    if "dial (UseSSL_pop3 cfg) ?addr = Inl e"
    using that by (simp add: POP3_Connect_def)
  have b: "POP3_Connect dial cfg
      = (if HasPrefix g ''-ERR''
         then (Some (Wrap ''pop3 greeting: '' (Errorf (''pop3: '' @ g))), Some (c'\<lparr>closed := True\<rparr>))
         else (None, Some c'))"
    if "dial (UseSSL_pop3 cfg) ?addr = Inr c \<and> readLine ?c = (Inr g, c')"
    using that by (simp add: POP3_Connect_def POP3_readResponse_def Close_conn_def)
  have ok: "\<not> HasPrefix g ''-ERR''" if "HasPrefix g ''+OK''"
    using that by (rule HasPrefix_OK_not_ERR)
  have d: "POP3_Connect dial cfg = (Some (Wrap ''pop3 greeting: '' e), Some (c'\<lparr>closed := True\<rparr>))"
    if "dial (UseSSL_pop3 cfg) ?addr = Inr c \<and> readLine ?c = (Inl e, c')"
    using that by (simp add: POP3_Connect_def POP3_readResponse_def Close_conn_def)
  have f: "readLine ?c = (Inr w, c\<lparr>incoming := rest, tls := UseSSL_pop3 cfg\<rparr>)"
    if "wireLine w \<and> incoming c = w @ CRLF @ rest"
    using that readLine_wire [of w ?c rest] by simp
  show ?thesis
    using a b ok d f by (simp del: append.simps)
qed

text \<open>
  The greeting \<^verbatim>\<open>+OK greeting\<close> is accepted and \<^verbatim>\<open>-ERR busy\<close> is refused; a failed dial
  and a stream that ends inside the greeting are errors.
\<close>

theorem POP3_Connect_fails_on_ERR_only_witness:
  "wireLine ''+OK greeting'' \<and> HasPrefix ''+OK greeting'' ''+OK''
   \<and> readLine ((fresh (''+OK greeting'' @ CRLF))\<lparr>tls := UseSSL_pop3 pop3_example\<rparr>)
       = (Inr ''+OK greeting'', fresh [])
   \<and> POP3_Connect (\<lambda>t a. Inr (fresh (''+OK greeting'' @ CRLF))) pop3_example
       = (None, Some (fresh []))
   \<and> readLine ((fresh (''-ERR busy'' @ CRLF))\<lparr>tls := UseSSL_pop3 pop3_example\<rparr>)
       = (Inr ''-ERR busy'', fresh [])
   \<and> POP3_Connect (\<lambda>t a. Inr (fresh (''-ERR busy'' @ CRLF))) pop3_example
       = (Some (Wrap ''pop3 greeting: '' (Errorf ''pop3: -ERR busy'')),
          Some ((fresh [])\<lparr>closed := True\<rparr>))
   \<and> fst (POP3_Connect (\<lambda>t a. Inl ErrDial) pop3_example)
       = Some (Wrap (''pop3 connect '' @ Host_pop3 pop3_example @ '':''
                      @ Itoa (Port_pop3 pop3_example) @ '': '') ErrDial)
   \<and> readLine ((fresh ''+OK'')\<lparr>tls := UseSSL_pop3 pop3_example\<rparr>) = (Inl EOF, fresh [])
   \<and> POP3_Connect (\<lambda>t a. Inr (fresh ''+OK'')) pop3_example
       = (Some (Wrap ''pop3 greeting: '' EOF), Some ((fresh [])\<lparr>closed := True\<rparr>))"
  using POP3_Connect_fails_on_ERR_only
      [of "\<lambda>t a. Inr (fresh (''+OK greeting'' @ CRLF))" pop3_example ErrDial
          "fresh (''+OK greeting'' @ CRLF)" "''+OK greeting''" "fresh []" "''+OK greeting''" "[]"]
    POP3_Connect_fails_on_ERR_only
      [of "\<lambda>t a. Inr (fresh (''-ERR busy'' @ CRLF))" pop3_example ErrDial
          "fresh (''-ERR busy'' @ CRLF)" "''-ERR busy''" "fresh []" "''-ERR busy''" "[]"]
    POP3_Connect_fails_on_ERR_only
      [of "\<lambda>t a. Inl ErrDial" pop3_example ErrDial "fresh []" "[]" "fresh []" "[]" "[]"]
    POP3_Connect_fails_on_ERR_only
      [of "\<lambda>t a. Inr (fresh ''+OK'')" pop3_example EOF "fresh ''+OK''" "[]" "fresh []" "[]" "[]"]
  by (simp add: wireLine_def HasPrefix_def fresh_def pop3_example_def readLine_def ReadString_def
      TrimRight_def)

text \<open>
  Claim C2 as the specification states it fails: the greeting \<^verbatim>\<open>hello\<close> does not carry the
  \<^verbatim>\<open>+OK\<close> status, and \<^verbatim>\<open>Connect\<close> succeeds on it.
\<close>

theorem POP3_Connect_not_OK_counterexample:
  "\<not> HasPrefix ''hello'' ''+OK''
   \<and> fst (POP3_Connect (\<lambda>t a. Inr (fresh (''hello'' @ CRLF))) pop3_example) = None"
proof -
  have "POP3_Connect (\<lambda>t a. Inr (fresh (''hello'' @ CRLF))) pop3_example
      = (if HasPrefix ''hello'' ''-ERR''
         then (Some (Wrap ''pop3 greeting: '' (Errorf (''pop3: '' @ ''hello''))),
               Some ((fresh (''hello'' @ CRLF))\<lparr>incoming := [], tls := UseSSL_pop3 pop3_example, closed := True\<rparr>))
         else (None, Some ((fresh (''hello'' @ CRLF))\<lparr>incoming := [], tls := UseSSL_pop3 pop3_example\<rparr>)))"
    by (rule POP3_Connect_line) (simp_all add: wireLine_def fresh_def)
  then show ?thesis
    by (simp add: HasPrefix_def)
qed

text \<open>
  Claim C3, as amended. After the dial, \<^verbatim>\<open>Connect\<close> reads one greeting reply: its
  continuation lines and its final line. It fails, with the error
  \<^verbatim>\<open>smtp greeting: smtp: \<close> and the final line, and closes the connection, exactly when the
  final line starts with 4 or 5; every other greeting is accepted, whether its status is
  2xx or not. It also fails when the dial fails or the reply cannot be read.
\<close>

theorem SMTP_Connect_fails_on_4xx_5xx_only:
  "(dial (UseSSL cfg) (Host cfg @ '':'' @ Itoa (Port cfg)) = Inl e
      \<longrightarrow> SMTP_Connect dial cfg
            = (Some (Wrap (''smtp connect '' @ Host cfg @ '':'' @ Itoa (Port cfg) @ '': '') e), None))
   \<and> (dial (UseSSL cfg) (Host cfg @ '':'' @ Itoa (Port cfg)) = Inr c
        \<and> SMTP_readResponse_loop (c\<lparr>tls := UseSSL cfg\<rparr>) = (Inr g, c')
      \<longrightarrow> \<not> continuation g
          \<and> SMTP_Connect dial cfg
            = (if rejected g
               then (Some (Wrap ''smtp greeting: '' (Errorf (''smtp: '' @ g))),
                     Some (c'\<lparr>closed := True\<rparr>))
               else (None, Some c')))
   \<and> (dial (UseSSL cfg) (Host cfg @ '':'' @ Itoa (Port cfg)) = Inr c
        \<and> SMTP_readResponse_loop (c\<lparr>tls := UseSSL cfg\<rparr>) = (Inl e, c')
      \<longrightarrow> SMTP_Connect dial cfg
            = (Some (Wrap ''smtp greeting: '' e), Some (c'\<lparr>closed := True\<rparr>)))
   \<and> ((\<forall>l\<in>set conts. wireLine l \<and> continuation l)
        \<and> wireLine final \<and> \<not> continuation final
        \<and> incoming c = wire (conts @ [final]) @ rest
      \<longrightarrow> SMTP_readResponse_loop (c\<lparr>tls := UseSSL cfg\<rparr>)
            = (Inr final, c\<lparr>incoming := rest, tls := UseSSL cfg\<rparr>))"
proof -
  let ?addr = "Host cfg @ '':'' @ Itoa (Port cfg)"
  let ?c = "c\<lparr>tls := UseSSL cfg\<rparr>"
  have a: "SMTP_Connect dial cfg = (Some (Wrap (''smtp connect '' @ ?addr @ '': '') e), None)"
    if "dial (UseSSL cfg) ?addr = Inl e"
    using that by (simp add: SMTP_Connect_def)
  have b: "\<not> continuation g
      \<and> SMTP_Connect dial cfg
          = (if rejected g
             then (Some (Wrap ''smtp greeting: '' (Errorf (''smtp: '' @ g))), Some (c'\<lparr>closed := True\<rparr>))
             else (None, Some c'))"
    if h: "dial (UseSSL cfg) ?addr = Inr c \<and> SMTP_readResponse_loop ?c = (Inr g, c')"
  proof
    show "\<not> continuation g"
      using h SMTP_readResponse_loop_final by blast
    show "SMTP_Connect dial cfg
          = (if rejected g
             then (Some (Wrap ''smtp greeting: '' (Errorf (''smtp: '' @ g))), Some (c'\<lparr>closed := True\<rparr>))
             else (None, Some c'))"
      using h by (simp add: SMTP_Connect_def SMTP_readResponse_def Close_conn_def rejected_iff)
  qed
  have d: "SMTP_Connect dial cfg = (Some (Wrap ''smtp greeting: '' e), Some (c'\<lparr>closed := True\<rparr>))"
    if "dial (UseSSL cfg) ?addr = Inr c \<and> SMTP_readResponse_loop ?c = (Inl e, c')"
    using that by (simp add: SMTP_Connect_def SMTP_readResponse_def Close_conn_def)
  have f: "SMTP_readResponse_loop ?c = (Inr final, c\<lparr>incoming := rest, tls := UseSSL cfg\<rparr>)"
    if "(\<forall>l\<in>set conts. wireLine l \<and> continuation l) \<and> wireLine final \<and> \<not> continuation final
        \<and> incoming c = wire (conts @ [final]) @ rest"
    using that SMTP_readResponse_loop_reply [of conts final ?c rest] by simp
  show ?thesis
    using a b d f by (simp del: append.simps)
qed

text \<open>
  The greeting \<^verbatim>\<open>220-mx.example.org\<close>, \<^verbatim>\<open>220 ready\<close> is accepted and \<^verbatim>\<open>554 no service\<close> is
  refused; a failed dial and a stream that ends inside the greeting are errors.
\<close>

theorem SMTP_Connect_fails_on_4xx_5xx_only_witness:
  "list_all (\<lambda>l. wireLine l \<and> continuation l) [''220-mx.example.org'']
   \<and> wireLine ''220 ready'' \<and> \<not> continuation ''220 ready''
   \<and> SMTP_readResponse_loop
        ((fresh (wire [''220-mx.example.org'', ''220 ready'']))\<lparr>tls := UseSSL smtp_example\<rparr>)
       = (Inr ''220 ready'', fresh [])
   \<and> SMTP_Connect (\<lambda>t a. Inr (fresh (wire [''220-mx.example.org'', ''220 ready'']))) smtp_example
       = (None, Some (fresh []))
   \<and> SMTP_readResponse_loop ((fresh (wire [''554 no service'']))\<lparr>tls := UseSSL smtp_example\<rparr>)
       = (Inr ''554 no service'', fresh [])
   \<and> SMTP_Connect (\<lambda>t a. Inr (fresh (wire [''554 no service'']))) smtp_example
       = (Some (Wrap ''smtp greeting: '' (Errorf ''smtp: 554 no service'')),
          Some ((fresh [])\<lparr>closed := True\<rparr>))
   \<and> fst (SMTP_Connect (\<lambda>t a. Inl ErrDial) smtp_example)
       = Some (Wrap (''smtp connect '' @ Host smtp_example @ '':''
                      @ Itoa (Port smtp_example) @ '': '') ErrDial)
   \<and> SMTP_readResponse_loop ((fresh ''220'')\<lparr>tls := UseSSL smtp_example\<rparr>) = (Inl EOF, fresh [])
   \<and> SMTP_Connect (\<lambda>t a. Inr (fresh ''220'')) smtp_example
       = (Some (Wrap ''smtp greeting: '' EOF), Some ((fresh [])\<lparr>closed := True\<rparr>))"
  using SMTP_Connect_fails_on_4xx_5xx_only
      [of "\<lambda>t a. Inr (fresh (wire [''220-mx.example.org'', ''220 ready'']))" smtp_example ErrDial
          "fresh (wire [''220-mx.example.org'', ''220 ready''])" "''220 ready''" "fresh []"
          "[''220-mx.example.org'']" "''220 ready''" "[]"]
    SMTP_Connect_fails_on_4xx_5xx_only
      [of "\<lambda>t a. Inr (fresh (wire [''554 no service'']))" smtp_example ErrDial
          "fresh (wire [''554 no service''])" "''554 no service''" "fresh []"
          "[]" "''554 no service''" "[]"]
    SMTP_Connect_fails_on_4xx_5xx_only
      [of "\<lambda>t a. Inl ErrDial" smtp_example ErrDial "fresh []" "[]" "fresh []" "[]" "[]" "[]"]
    SMTP_Connect_fails_on_4xx_5xx_only
      [of "\<lambda>t a. Inr (fresh ''220'')" smtp_example EOF "fresh ''220''" "[]" "fresh []" "[]" "[]" "[]"]
  by (simp add: wire_def wireLine_def continuation_def rejected_def fresh_def smtp_example_def
      SMTP_readResponse_loop.simps ReadString_def TrimRight_def)

text \<open>
  Claim C3 as the specification states it fails: the status of the greeting
  \<^verbatim>\<open>354 go ahead\<close> is not in the range 200 to 299, and \<^verbatim>\<open>Connect\<close> succeeds on it.
\<close>

theorem SMTP_Connect_not_2xx_counterexample:
  "\<not> spec_status_2xx ''354 go ahead''
   \<and> fst (SMTP_Connect (\<lambda>t a. Inr (fresh (wire [''354 go ahead'']))) smtp_example) = None"
proof -
  have "SMTP_Connect (\<lambda>t a. Inr (fresh (wire [''354 go ahead'']))) smtp_example
      = (if rejected ''354 go ahead''
         then (Some (Wrap ''smtp greeting: '' (Errorf (''smtp: '' @ ''354 go ahead''))),
               Some ((fresh (wire [''354 go ahead'']))\<lparr>incoming := [], tls := UseSSL smtp_example, closed := True\<rparr>))
         else (None, Some ((fresh (wire [''354 go ahead'']))\<lparr>incoming := [], tls := UseSSL smtp_example\<rparr>)))"
    by (rule SMTP_Connect_reply [where conts = "[]"])
       (simp_all add: wireLine_def continuation_def fresh_def wire_def)
  then show ?thesis
    by (simp add: rejected_def spec_status_2xx_def)
qed

text \<open>
  Claim C4. A reply is read line by line while the fourth byte of the line is \<^verbatim>\<open>-\<close>; the
  first line that is shorter than four bytes or has another fourth byte ends it and is the
  result, and nothing behind it is read. When that final line starts with 4 or 5 the result
  carries the error \<^verbatim>\<open>smtp: \<close> followed by the line as received; otherwise there is no
  error. A reply that cannot be read to its final line is the error of the read.
\<close>

theorem readResponse_aggregates:
  "(SMTP_readResponse_loop c = (Inr l, c')
      \<longrightarrow> \<not> continuation l
          \<and> SMTP_readResponse c
            = ((l, if rejected l then Some (Errorf (''smtp: '' @ l)) else None), c'))
   \<and> (SMTP_readResponse_loop c = (Inl e, c') \<longrightarrow> SMTP_readResponse c = (([], Some e), c'))
   \<and> ((\<forall>l\<in>set conts. wireLine l \<and> continuation l)
        \<and> wireLine final \<and> \<not> continuation final
        \<and> incoming c = wire (conts @ [final]) @ rest
      \<longrightarrow> SMTP_readResponse c
            = ((final, if rejected final then Some (Errorf (''smtp: '' @ final)) else None),
               c\<lparr>incoming := rest\<rparr>))"
proof -
  have a: "\<not> continuation l
      \<and> SMTP_readResponse c = ((l, if rejected l then Some (Errorf (''smtp: '' @ l)) else None), c')"
    if h: "SMTP_readResponse_loop c = (Inr l, c')"
  proof
    show "\<not> continuation l"
      using h by (rule SMTP_readResponse_loop_final)
    have "rejected l = (1 \<le> length l \<and> (l ! 0 = CHR ''4'' \<or> l ! 0 = CHR ''5''))"
      by (rule rejected_iff)
    then show "SMTP_readResponse c
        = ((l, if rejected l then Some (Errorf (''smtp: '' @ l)) else None), c')"
      using h by (simp add: SMTP_readResponse_def)
  qed
  have b: "SMTP_readResponse c = (([], Some e), c')" if "SMTP_readResponse_loop c = (Inl e, c')"
    using that by (simp add: SMTP_readResponse_def)
  have d: "SMTP_readResponse c
            = ((final, if rejected final then Some (Errorf (''smtp: '' @ final)) else None),
               c\<lparr>incoming := rest\<rparr>)"
    if h: "(\<forall>l\<in>set conts. wireLine l \<and> continuation l) \<and> wireLine final \<and> \<not> continuation final
        \<and> incoming c = wire (conts @ [final]) @ rest"
  proof -
    have "SMTP_readResponse_loop c = (Inr final, c\<lparr>incoming := rest\<rparr>)"
      using h by (intro SMTP_readResponse_loop_reply) auto
    moreover have "rejected final
        = (1 \<le> length final \<and> (final ! 0 = CHR ''4'' \<or> final ! 0 = CHR ''5''))"
      by (rule rejected_iff)
    ultimately show ?thesis
      by (simp add: SMTP_readResponse_def)
  qed
  show ?thesis
    using a b d by blast
qed

text \<open>
  The examples of the claim: \<^verbatim>\<open>250-feature1\<close>, \<^verbatim>\<open>250-feature2\<close>, \<^verbatim>\<open>250 OK\<close> is one
  success with the line \<^verbatim>\<open>250 OK\<close>, and \<^verbatim>\<open>550 rejected\<close> is an error whose text holds
  the line. A stream that ends inside the reply is an error.
\<close>

theorem readResponse_aggregates_witness:
  "list_all (\<lambda>l. wireLine l \<and> continuation l) [''250-feature1'', ''250-feature2'']
   \<and> wireLine ''250 OK'' \<and> \<not> continuation ''250 OK''
   \<and> SMTP_readResponse_loop (fresh (wire [''250-feature1'', ''250-feature2'', ''250 OK'']))
       = (Inr ''250 OK'', fresh [])
   \<and> SMTP_readResponse (fresh (wire [''250-feature1'', ''250-feature2'', ''250 OK'']))
       = ((''250 OK'', None), fresh [])
   \<and> wireLine ''550 rejected'' \<and> \<not> continuation ''550 rejected''
   \<and> map_option Error (snd (fst (SMTP_readResponse (fresh (wire [''550 rejected''])))))
       = Some ''smtp: 550 rejected''
   \<and> SMTP_readResponse_loop (fresh (wire [''250-feature1''] @ ''250'')) = (Inl EOF, fresh [])
   \<and> SMTP_readResponse (fresh (wire [''250-feature1''] @ ''250'')) = (([], Some EOF), fresh [])"
  using readResponse_aggregates
      [of "fresh (wire [''250-feature1'', ''250-feature2'', ''250 OK''])" "''250 OK''" "fresh []"
          EOF "[''250-feature1'', ''250-feature2'']" "''250 OK''" "[]"]
    readResponse_aggregates
      [of "fresh (wire [''550 rejected''])" "''550 rejected''" "fresh []" EOF
          "[]" "''550 rejected''" "[]"]
    readResponse_aggregates
      [of "fresh (wire [''250-feature1''] @ ''250'')" "[]" "fresh []" EOF "[]" "[]" "[]"]
  by (simp add: wire_def wireLine_def continuation_def rejected_def fresh_def
      SMTP_readResponse_loop.simps ReadString_def TrimRight_def)

text \<open>
  Claim C5. Unstuffing a stuffed line gives the line back, for every line. A line that does
  not start with a dot is left as it is by both operations; a line that starts with a dot
  is sent with exactly one more dot in front, and a received line that starts with two dots
  loses exactly the first. Through the code paths themselves: when the lines of a message
  are stuffed, sent with the lone dot after them and read by \<^verbatim>\<open>readDot\<close>, the lines read
  are the lines of the message.
\<close>

theorem dotUnstuff_inverts_dotStuff:
  "dotUnstuff (dotStuff l) = l
   \<and> (\<not> HasPrefix l ''.'' \<longrightarrow> dotStuff l = l \<and> dotUnstuff l = l)
   \<and> (HasPrefix l ''.'' \<longrightarrow> dotStuff l = CHR ''.'' # l)
   \<and> (HasPrefix l ''..'' \<longrightarrow> CHR ''.'' # dotUnstuff l = l)
   \<and> ((\<forall>m\<in>set ls. wireLine m) \<and> incoming c = wire (map dotStuff ls @ [''.'']) @ rest
        \<longrightarrow> readDot c = (Inr ls, c\<lparr>incoming := rest\<rparr>))"
proof -
  have a: "dotUnstuff (dotStuff l) = l"
    by (cases l) (auto simp: dotStuff_def dotUnstuff_def HasPrefix_def)
  have b: "dotStuff l = l \<and> dotUnstuff l = l" if "\<not> HasPrefix l ''.''"
    using that by (cases l) (auto simp: dotStuff_def dotUnstuff_def HasPrefix_def)
  have c: "dotStuff l = CHR ''.'' # l" if "HasPrefix l ''.''"
    using that by (simp add: dotStuff_def)
  have d: "CHR ''.'' # dotUnstuff l = l" if "HasPrefix l ''..''"
    using that by (cases l) (auto simp: dotUnstuff_def HasPrefix_def)
  have e: "readDot c = (Inr ls, c\<lparr>incoming := rest\<rparr>)"
    if h: "(\<forall>m\<in>set ls. wireLine m) \<and> incoming c = wire (map dotStuff ls @ [''.'']) @ rest"
  proof -
    have 1: "\<forall>m\<in>set (map dotStuff ls). wireLine m \<and> m \<noteq> ''.''"
      using h dotStuff_wire by auto
    have 2: "incoming c = wire (map dotStuff ls) @ ''.'' @ CRLF @ rest"
      using h by (simp add: wire_def)
    have "readDot_loop [] c = (Inr ([] @ map dotUnstuff (map dotStuff ls)), c\<lparr>incoming := rest\<rparr>)"
      using 1 2 by (rule readDot_loop_block)
    moreover have "map dotUnstuff (map dotStuff ls) = ls"
      by (induction ls) (simp_all add: dotUnstuff_dotStuff_id)
    ultimately show ?thesis
      by (simp add: readDot_def)
  qed
  from a b c d e show ?thesis by blast
qed

text \<open>
  The example of the specification: \<^verbatim>\<open>.foo\<close> is sent as \<^verbatim>\<open>..foo\<close> and read back as
  \<^verbatim>\<open>.foo\<close>; \<^verbatim>\<open>bar\<close> is untouched.
\<close>

theorem dotUnstuff_inverts_dotStuff_witness:
  "dotStuff ''.foo'' = ''..foo'' \<and> dotUnstuff ''..foo'' = ''.foo''
   \<and> \<not> HasPrefix ''bar'' ''.'' \<and> dotStuff ''bar'' = ''bar'' \<and> dotUnstuff ''bar'' = ''bar''
   \<and> HasPrefix ''.foo'' ''.'' \<and> HasPrefix ''..foo'' ''..''
   \<and> list_all wireLine [''.foo'', ''bar'', ''.'']
   \<and> readDot (fresh (wire [''..foo'', ''bar'', ''..'', ''.'']))
       = (Inr [''.foo'', ''bar'', ''.''], fresh [])"
  using dotUnstuff_inverts_dotStuff [of "''.foo''" "[''.foo'', ''bar'', ''.'']"
      "fresh (wire [''..foo'', ''bar'', ''..'', ''.''])" "[]"]
    dotUnstuff_inverts_dotStuff [of "''bar''" "[]" "fresh (wire [''.''])" "[]"]
    dotUnstuff_inverts_dotStuff [of "''..foo''" "[]" "fresh (wire [''.''])" "[]"]
  by (simp add: HasPrefix_def dotStuff_def wire_def wireLine_def fresh_def)



text \<open>
  Claim C7, as amended. The writes of one call of \<^verbatim>\<open>Send\<close> are, for every request, an
  initial part (never an empty one) of: the \<^verbatim>\<open>MAIL FROM\<close> write, the \<^verbatim>\<open>RCPT TO\<close> write of each
  recipient in order, the \<^verbatim>\<open>DATA\<close> write, the lines of the message, the lone dot; and no
  line of the message is written as a lone dot. When neither the sender nor any recipient
  holds a carriage return or a line feed, every write is one line: the lines on the wire are
  the same initial part of the lines of these writes, and the commands the server receives
  are the same initial part of \<^verbatim>\<open>MAIL FROM\<close>, the \<^verbatim>\<open>RCPT TO\<close> of each recipient in order,
  \<^verbatim>\<open>DATA\<close>; so exactly one of them is a \<^verbatim>\<open>MAIL FROM\<close> command. When the server (or the
  transport) has taken \<^verbatim>\<open>MAIL FROM\<close> and the first \<open>i\<close> recipients and the command for
  recipient \<open>i\<close> fails, \<^verbatim>\<open>Send\<close> returns that error at once: the writes of the call are
  \<^verbatim>\<open>MAIL FROM\<close> and the \<^verbatim>\<open>RCPT TO\<close> of the recipients up to \<open>i\<close>, and with addresses free of
  line breaks these are all the commands the server receives, so no later recipient is named
  and \<^verbatim>\<open>DATA\<close> is not sent. On the wire: after accepted replies to \<^verbatim>\<open>MAIL FROM\<close> and to some
  of the recipients, a final reply that starts with 4 or 5 ends the call with that line as
  the error, and what the server sends after it is left unread.
\<close>

theorem Send_stops_at_rejected_recipient:
  "issued c (snd (Send now req c)) \<noteq> []
   \<and> issued c (snd (Send now req c))
       = take (length (issued c (snd (Send now req c)))) (script now req)
   \<and> ''.'' \<notin> set (messageLines now req)
   \<and> (noBreak (From_req req) \<and> (\<forall>to\<in>set (To req). noBreak to)
      \<longrightarrow> received (sent (issued c (snd (Send now req c))))
            = take (length (issued c (snd (Send now req c)))) (scriptLines now req)
          \<and> commandsReceived c (snd (Send now req c))
            = take (length (issued c (snd (Send now req c))))
                (mailFromLine req # map rcptLine (To req) @ [''DATA''])
          \<and> length (filter isMailFromLine (commandsReceived c (snd (Send now req c)))) = 1)
   \<and> (i < length (To req)
        \<and> SMTP_cmd (''MAIL FROM:<'' @ From_req req @ ''>'') c = ((r0, None), c0)
        \<and> Send_rcpt (take i (To req)) c0 = (None, c1)
        \<and> SMTP_cmd (''RCPT TO:<'' @ To req ! i @ ''>'') c1 = ((r, Some e), c2)
      \<longrightarrow> Send now req c = (Some (Wrap (''smtp RCPT TO '' @ To req ! i @ '': '') e), c2)
          \<and> issued c c2 = mailFrom req # map rcptTo (take (Suc i) (To req))
          \<and> (noBreak (From_req req) \<and> (\<forall>to\<in>set (To req). noBreak to)
             \<longrightarrow> commandsReceived c c2
                   = mailFromLine req # map rcptLine (take (Suc i) (To req))))
   \<and> (wleft c = None \<and> accepted a0 \<and> list_all accepted rs \<and> length rs < length (To req)
        \<and> wireLine rj \<and> \<not> continuation rj \<and> rejected rj
        \<and> incoming c = wire (a0 # rs @ [rj]) @ rest
      \<longrightarrow> Send now req c
          = (Some (Wrap (''smtp RCPT TO '' @ To req ! length rs @ '': '') (Errorf (''smtp: '' @ rj))),
             c\<lparr>incoming := rest,
               writes := writes c @ mailFrom req # map rcptTo (take (Suc (length rs)) (To req))\<rparr>))"
proof -
  let ?w = "issued c (snd (Send now req c))"
  have a: "?w \<noteq> [] \<and> ?w = take (length ?w) (script now req)"
    by (rule Send_issued_take)
  have nd: "''.'' \<notin> set (messageLines now req)"
    by (rule messageLines_no_dot)
  have l: "received (sent ?w) = take (length ?w) (scriptLines now req)
          \<and> commandsReceived c (snd (Send now req c))
            = take (length ?w) (mailFromLine req # map rcptLine (To req) @ [''DATA''])
          \<and> length (filter isMailFromLine (commandsReceived c (snd (Send now req c)))) = 1"
    if h: "noBreak (From_req req) \<and> (\<forall>to\<in>set (To req). noBreak to)"
  proof -
    have 0: "received (sent ?w) = take (length ?w) (scriptLines now req)"
      using h by (intro Send_received) (auto simp: noBreak_def)
    have 1: "commandsReceived c (snd (Send now req c))
            = take (length ?w) (mailFromLine req # map rcptLine (To req) @ [''DATA''])"
      using h by (intro Send_commands) (auto simp: noBreak_def)
    obtain m where m: "length ?w = Suc m"
      using a by (cases ?w) auto
    have "length (filter isMailFromLine (commandsReceived c (snd (Send now req c)))) = 1"
      unfolding 1 m using one_MAIL_FROM [of m req "To req"] by simp
    then show ?thesis using 0 1 by blast
  qed
  have b: "Send now req c = (Some (Wrap (''smtp RCPT TO '' @ To req ! i @ '': '') e), c2)
          \<and> issued c c2 = mailFrom req # map rcptTo (take (Suc i) (To req))
          \<and> (noBreak (From_req req) \<and> (\<forall>to\<in>set (To req). noBreak to)
             \<longrightarrow> commandsReceived c c2
                   = mailFromLine req # map rcptLine (take (Suc i) (To req)))"
    if h: "i < length (To req)
        \<and> SMTP_cmd (''MAIL FROM:<'' @ From_req req @ ''>'') c = ((r0, None), c0)
        \<and> Send_rcpt (take i (To req)) c0 = (None, c1)
        \<and> SMTP_cmd (''RCPT TO:<'' @ To req ! i @ ''>'') c1 = ((r, Some e), c2)"
  proof -
    have 1: "Send now req c = (Some (Wrap (''smtp RCPT TO '' @ To req ! i @ '': '') e), c2)"
      using h Send_rejected_rcpt(1) [of i req c r0 c0 c1 r e c2 now] by blast
    have 2: "issued c c2 = mailFrom req # map rcptTo (take (Suc i) (To req))"
      using h Send_rejected_rcpt(2) [of i req c r0 c0 c1 r e c2] by blast
    have 3: "commandsReceived c c2 = mailFromLine req # map rcptLine (take (Suc i) (To req))"
      if "noBreak (From_req req) \<and> (\<forall>to\<in>set (To req). noBreak to)"
      unfolding commandsReceived_def 2 using that h
      by (intro commands_rcpts) (auto simp: noBreak_def)
    show ?thesis using 1 2 3 by blast
  qed
  have d: "Send now req c
          = (Some (Wrap (''smtp RCPT TO '' @ To req ! length rs @ '': '') (Errorf (''smtp: '' @ rj))),
             c\<lparr>incoming := rest,
               writes := writes c @ mailFrom req # map rcptTo (take (Suc (length rs)) (To req))\<rparr>)"
    if "wleft c = None \<and> accepted a0 \<and> list_all accepted rs \<and> length rs < length (To req)
        \<and> wireLine rj \<and> \<not> continuation rj \<and> rejected rj
        \<and> incoming c = wire (a0 # rs @ [rj]) @ rest"
    using that by (intro Send_rejected_reply) auto
  show ?thesis
    using a nd l b d by blast
qed

text \<open>
  Three recipients; the server takes \<^verbatim>\<open>MAIL FROM\<close> and the first recipient and refuses the
  second with \<^verbatim>\<open>550\<close>. \<^verbatim>\<open>Send\<close> fails with that line after three commands, one of them a
  \<^verbatim>\<open>MAIL FROM\<close>, and the replies the server would have given to the third recipient and to
  \<^verbatim>\<open>DATA\<close> stay unread.
\<close>

theorem Send_stops_at_rejected_recipient_witness:
  "(1::nat) < length (To req_three)
   \<and> noBreak (From_req req_three) \<and> list_all noBreak (To req_three)
   \<and> SMTP_cmd (''MAIL FROM:<'' @ From_req req_three @ ''>'')
        (fresh (wire [''250 ok'', ''250 ok'', ''550 no such user'', ''250 ok'', ''354 go'']))
       = ((''250 ok'', None),
          \<lparr>incoming = wire [''250 ok'', ''550 no such user'', ''250 ok'', ''354 go''],
           writes = [Cmd (''MAIL FROM:<a@x>'' @ CRLF)],
           wleft = None, tls = False, closed = False\<rparr>)
   \<and> Send_rcpt (take 1 (To req_three))
          \<lparr>incoming = wire [''250 ok'', ''550 no such user'', ''250 ok'', ''354 go''],
           writes = [Cmd (''MAIL FROM:<a@x>'' @ CRLF)],
           wleft = None, tls = False, closed = False\<rparr>
       = (None,
          \<lparr>incoming = wire [''550 no such user'', ''250 ok'', ''354 go''],
           writes = [Cmd (''MAIL FROM:<a@x>'' @ CRLF), Cmd (''RCPT TO:<b@y>'' @ CRLF)],
           wleft = None, tls = False, closed = False\<rparr>)
   \<and> SMTP_cmd (''RCPT TO:<'' @ To req_three ! 1 @ ''>'')
          \<lparr>incoming = wire [''550 no such user'', ''250 ok'', ''354 go''],
           writes = [Cmd (''MAIL FROM:<a@x>'' @ CRLF), Cmd (''RCPT TO:<b@y>'' @ CRLF)],
           wleft = None, tls = False, closed = False\<rparr>
       = ((''550 no such user'', Some (Errorf ''smtp: 550 no such user'')),
          \<lparr>incoming = wire [''250 ok'', ''354 go''],
           writes = [Cmd (''MAIL FROM:<a@x>'' @ CRLF), Cmd (''RCPT TO:<b@y>'' @ CRLF),
                     Cmd (''RCPT TO:<c@z>'' @ CRLF)],
           wleft = None, tls = False, closed = False\<rparr>)
   \<and> accepted ''250 ok'' \<and> list_all accepted [''250 ok'']
   \<and> length [''250 ok''] < length (To req_three)
   \<and> wireLine ''550 no such user'' \<and> \<not> continuation ''550 no such user''
   \<and> rejected ''550 no such user''
   \<and> Send now_example req_three
        (fresh (wire [''250 ok'', ''250 ok'', ''550 no such user'', ''250 ok'', ''354 go'']))
       = (Some (Wrap ''smtp RCPT TO c@z: '' (Errorf ''smtp: 550 no such user'')),
          \<lparr>incoming = wire [''250 ok'', ''354 go''],
           writes = [Cmd (''MAIL FROM:<a@x>'' @ CRLF), Cmd (''RCPT TO:<b@y>'' @ CRLF),
                     Cmd (''RCPT TO:<c@z>'' @ CRLF)],
           wleft = None, tls = False, closed = False\<rparr>)
   \<and> commandsReceived
        (fresh (wire [''250 ok'', ''250 ok'', ''550 no such user'', ''250 ok'', ''354 go'']))
        (snd (Send now_example req_three
           (fresh (wire [''250 ok'', ''250 ok'', ''550 no such user'', ''250 ok'', ''354 go'']))))
       = [''MAIL FROM:<a@x>'', ''RCPT TO:<b@y>'', ''RCPT TO:<c@z>'']
   \<and> length (filter isMailFromLine (commandsReceived
        (fresh (wire [''250 ok'', ''250 ok'', ''550 no such user'', ''250 ok'', ''354 go'']))
        (snd (Send now_example req_three
           (fresh (wire [''250 ok'', ''250 ok'', ''550 no such user'', ''250 ok'', ''354 go''])))))) = 1"
proof -
  let ?s = "fresh (wire [''250 ok'', ''250 ok'', ''550 no such user'', ''250 ok'', ''354 go''])"
  let ?c0 = "\<lparr>incoming = wire [''250 ok'', ''550 no such user'', ''250 ok'', ''354 go''],
            writes = [Cmd (''MAIL FROM:<a@x>'' @ CRLF)],
            wleft = None, tls = False, closed = False\<rparr>"
  let ?c1 = "\<lparr>incoming = wire [''550 no such user'', ''250 ok'', ''354 go''],
            writes = [Cmd (''MAIL FROM:<a@x>'' @ CRLF), Cmd (''RCPT TO:<b@y>'' @ CRLF)],
            wleft = None, tls = False, closed = False\<rparr>"
  let ?c2 = "\<lparr>incoming = wire [''250 ok'', ''354 go''],
            writes = [Cmd (''MAIL FROM:<a@x>'' @ CRLF), Cmd (''RCPT TO:<b@y>'' @ CRLF),
                      Cmd (''RCPT TO:<c@z>'' @ CRLF)],
            wleft = None, tls = False, closed = False\<rparr>"
  note t = Send_stops_at_rejected_recipient
      [of ?s now_example req_three 1 "''250 ok''" ?c0 ?c1
          "''550 no such user''" "Errorf ''smtp: 550 no such user''" ?c2
          "''250 ok''" "[''250 ok'']" "''550 no such user''" "wire [''250 ok'', ''354 go'']"]
  have h: "noBreak (From_req req_three) \<and> (\<forall>to\<in>set (To req_three). noBreak to)"
    by (simp add: req_three_def noBreak_def)
  have i: "(1::nat) < length (To req_three)"
    by (simp add: req_three_def)
  have 0: "SMTP_cmd (''MAIL FROM:<'' @ From_req req_three @ ''>'') ?s = ((''250 ok'', None), ?c0)"
    by (simp add: run_smtp req_three_def)
  have 1: "Send_rcpt (take 1 (To req_three)) ?c0 = (None, ?c1)"
    by (simp add: run_smtp req_three_def)
  have 2: "SMTP_cmd (''RCPT TO:<'' @ To req_three ! 1 @ ''>'') ?c1
      = ((''550 no such user'', Some (Errorf ''smtp: 550 no such user'')), ?c2)"
    by (simp add: run_smtp req_three_def)
  have l: "accepted ''250 ok'' \<and> list_all accepted [''250 ok'']
      \<and> length [''250 ok''] < length (To req_three)
      \<and> wireLine ''550 no such user'' \<and> \<not> continuation ''550 no such user''
      \<and> rejected ''550 no such user''"
    by (simp add: accepted_def wireLine_def continuation_def rejected_def req_three_def)
  have s: "Send now_example req_three ?s
      = (Some (Wrap (''smtp RCPT TO '' @ To req_three ! 1 @ '': '')
           (Errorf ''smtp: 550 no such user'')), ?c2)"
    and r: "commandsReceived ?s ?c2
      = mailFromLine req_three # map rcptLine (take (Suc 1) (To req_three))"
    using t h i 0 1 2 by blast+
  have s': "Send now_example req_three ?s
      = (Some (Wrap ''smtp RCPT TO c@z: '' (Errorf ''smtp: 550 no such user'')), ?c2)"
    using s by (simp add: req_three_def)
  have r': "commandsReceived ?s (snd (Send now_example req_three ?s))
      = [''MAIL FROM:<a@x>'', ''RCPT TO:<b@y>'', ''RCPT TO:<c@z>'']"
    using r unfolding s' by (simp add: req_three_def mailFromLine_def rcptLine_def)
  have n: "length (filter isMailFromLine (commandsReceived ?s (snd (Send now_example req_three ?s)))) = 1"
    using t h by blast
  have h': "noBreak (From_req req_three) \<and> list_all noBreak (To req_three)"
    by (simp add: req_three_def noBreak_def)
  show ?thesis
    using i h' 0 1 2 l s' r' n by blast
qed

text \<open>
  Claim C7 as the specification states it fails: a recipient that holds a line break
  carries a second \<^verbatim>\<open>MAIL FROM\<close> line. The server takes \<^verbatim>\<open>MAIL FROM\<close> and \<^verbatim>\<open>RCPT TO\<close>, refuses
  the second \<^verbatim>\<open>MAIL FROM\<close> with \<^verbatim>\<open>503\<close>, and \<^verbatim>\<open>Send\<close> reads that reply as the one to \<^verbatim>\<open>DATA\<close>.
  In this one call the server has received two \<^verbatim>\<open>MAIL FROM\<close> commands.
\<close>

theorem Send_second_MAIL_FROM_counterexample:
  "issued (fresh (wire [''250 ok'', ''250 ok'', ''503 nested MAIL command'']))
      (snd (Send now_example req_second_mail
              (fresh (wire [''250 ok'', ''250 ok'', ''503 nested MAIL command'']))))
     = [Cmd (''MAIL FROM:<a@x>'' @ CRLF),
        Cmd (''RCPT TO:<b@y>'' @ CRLF @ ''MAIL FROM:<m@z>'' @ CRLF),
        Cmd (''DATA'' @ CRLF)]
   \<and> commandsReceived (fresh (wire [''250 ok'', ''250 ok'', ''503 nested MAIL command'']))
      (snd (Send now_example req_second_mail
              (fresh (wire [''250 ok'', ''250 ok'', ''503 nested MAIL command'']))))
     = [''MAIL FROM:<a@x>'', ''RCPT TO:<b@y>'', ''MAIL FROM:<m@z>'', ''DATA'']
   \<and> length (filter isMailFromLine
        (commandsReceived (fresh (wire [''250 ok'', ''250 ok'', ''503 nested MAIL command'']))
          (snd (Send now_example req_second_mail
                  (fresh (wire [''250 ok'', ''250 ok'', ''503 nested MAIL command''])))))) = 2
   \<and> fst (Send now_example req_second_mail
              (fresh (wire [''250 ok'', ''250 ok'', ''503 nested MAIL command''])))
       = Some (Wrap ''smtp DATA: '' (Errorf ''smtp: 503 nested MAIL command''))"
  by code_simp

text \<open>
  Claim C8. On a connection that was dialled in plaintext, once the server has taken EHLO
  or HELO: when the \<^verbatim>\<open>STARTTLS\<close> command fails or its reply does not start with \<^verbatim>\<open>220\<close>,
  \<^verbatim>\<open>Handshake\<close> returns no error and the connection stays the plaintext one. So for every
  final reply line to \<^verbatim>\<open>STARTTLS\<close> that does not start with \<^verbatim>\<open>220\<close>, a 4xx or 5xx line
  included, the handshake succeeds. The only errors of \<^verbatim>\<open>Handshake\<close> are the one of
  EHLO/HELO and the one of a TLS handshake that was started after a \<^verbatim>\<open>220\<close>.
\<close>

theorem Handshake_without_STARTTLS:
  "(\<not> UseSSL cfg \<and> hello c = (None, c1) \<and> SMTP_cmd ''STARTTLS'' c1 = ((resp, err), c2)
      \<and> (err \<noteq> None \<or> \<not> HasPrefix resp ''220'')
    \<longrightarrow> Handshake hs cfg c = (None, c2) \<and> tls c2 = tls c)
   \<and> (\<not> UseSSL cfg \<and> wleft c = None \<and> accepted r1 \<and> wireLine r2 \<and> \<not> continuation r2
        \<and> \<not> HasPrefix r2 ''220'' \<and> incoming c = wire [r1, r2] @ rest
    \<longrightarrow> Handshake hs cfg c
          = (None, c\<lparr>incoming := rest,
                      writes := writes c @ [Cmd (''EHLO mulamail'' @ CRLF), Cmd (''STARTTLS'' @ CRLF)]\<rparr>))
   \<and> (fst (Handshake hs cfg c) = Some e
    \<longrightarrow> fst (hello c) = Some e
        \<or> (\<exists>h. hs = Some h \<and> e = Wrap ''smtp TLS handshake: '' h \<and> \<not> UseSSL cfg))"
proof -
  have a: "Handshake hs cfg c = (None, c2) \<and> tls c2 = tls c"
    if h: "\<not> UseSSL cfg \<and> hello c = (None, c1) \<and> SMTP_cmd ''STARTTLS'' c1 = ((resp, err), c2)
      \<and> (err \<noteq> None \<or> \<not> HasPrefix resp ''220'')"
  proof
    show "Handshake hs cfg c = (None, c2)"
      using h by (auto simp: Handshake_def)
    have "tls c1 = tls c" using hello_tls [of c] h by simp
    moreover have "tls c2 = tls c1" using SMTP_cmd_tls [of "''STARTTLS''" c1] h by simp
    ultimately show "tls c2 = tls c" by simp
  qed
  have b: "Handshake hs cfg c
          = (None, c\<lparr>incoming := rest,
                      writes := writes c @ [Cmd (''EHLO mulamail'' @ CRLF), Cmd (''STARTTLS'' @ CRLF)]\<rparr>)"
    if h: "\<not> UseSSL cfg \<and> wleft c = None \<and> accepted r1 \<and> wireLine r2 \<and> \<not> continuation r2
        \<and> \<not> HasPrefix r2 ''220'' \<and> incoming c = wire [r1, r2] @ rest"
  proof -
    let ?c1 = "c\<lparr>incoming := wire [r2] @ rest, writes := writes c @ [Cmd (''EHLO mulamail'' @ CRLF)]\<rparr>"
    have 1: "SMTP_cmd ''EHLO mulamail'' c = ((r1, None), ?c1)"
      using h by (intro SMTP_cmd_accepted) auto
    then have 2: "hello c = (None, ?c1)"
      by (simp add: hello_def)
    have "incoming ?c1 = wire (r2 # []) @ rest" by simp
    then have 3: "SMTP_cmd ''STARTTLS'' ?c1
        = ((r2, if rejected r2 then Some (Errorf (''smtp: '' @ r2)) else None),
           ?c1\<lparr>incoming := wire [] @ rest, writes := writes ?c1 @ [Cmd (''STARTTLS'' @ CRLF)]\<rparr>)"
      using h by (intro SMTP_cmd_final) auto
    show ?thesis
      using h 2 3 by (simp add: Handshake_def wire_def)
  qed
  have d: "fst (hello c) = Some e
        \<or> (\<exists>h. hs = Some h \<and> e = Wrap ''smtp TLS handshake: '' h \<and> \<not> UseSSL cfg)"
    if "fst (Handshake hs cfg c) = Some e"
    using that by (auto simp: Handshake_def split: prod.splits option.splits if_splits)
  show ?thesis
    using a b d by blast
qed

text \<open>
  The server takes EHLO and answers \<^verbatim>\<open>STARTTLS\<close> with \<^verbatim>\<open>502 not implemented\<close>: the
  handshake succeeds in plaintext, whatever a TLS handshake would have done.
\<close>

theorem Handshake_without_STARTTLS_witness:
  "\<not> UseSSL smtp_example
   \<and> hello (fresh (wire [''250 OK'', ''502 not implemented'']))
       = (None, \<lparr>incoming = wire [''502 not implemented''],
                 writes = [Cmd (''EHLO mulamail'' @ CRLF)],
                 wleft = None, tls = False, closed = False\<rparr>)
   \<and> SMTP_cmd ''STARTTLS'' \<lparr>incoming = wire [''502 not implemented''],
                 writes = [Cmd (''EHLO mulamail'' @ CRLF)],
                 wleft = None, tls = False, closed = False\<rparr>
       = ((''502 not implemented'', Some (Errorf ''smtp: 502 not implemented'')),
          \<lparr>incoming = [],
           writes = [Cmd (''EHLO mulamail'' @ CRLF), Cmd (''STARTTLS'' @ CRLF)],
           wleft = None, tls = False, closed = False\<rparr>)
   \<and> accepted ''250 OK'' \<and> wireLine ''502 not implemented''
   \<and> \<not> continuation ''502 not implemented'' \<and> \<not> HasPrefix ''502 not implemented'' ''220''
   \<and> Handshake (Some ErrTLS) smtp_example (fresh (wire [''250 OK'', ''502 not implemented'']))
       = (None, \<lparr>incoming = [],
                 writes = [Cmd (''EHLO mulamail'' @ CRLF), Cmd (''STARTTLS'' @ CRLF)],
                 wleft = None, tls = False, closed = False\<rparr>)"
  using Handshake_without_STARTTLS
      [of smtp_example "fresh (wire [''250 OK'', ''502 not implemented''])"
          "\<lparr>incoming = wire [''502 not implemented''],
            writes = [Cmd (''EHLO mulamail'' @ CRLF)],
            wleft = None, tls = False, closed = False\<rparr>"
          "''502 not implemented''" "Some (Errorf ''smtp: 502 not implemented'')"
          "\<lparr>incoming = [],
            writes = [Cmd (''EHLO mulamail'' @ CRLF), Cmd (''STARTTLS'' @ CRLF)],
            wleft = None, tls = False, closed = False\<rparr>"
          "Some ErrTLS" "''250 OK''" "''502 not implemented''" "[]" ErrTLS]
  by (simp add: accepted_def wireLine_def continuation_def rejected_def HasPrefix_def
      smtp_example_def fresh_def wire_def hello_def SMTP_cmd_def Fprintf_def
      SMTP_readResponse_def SMTP_readResponse_loop.simps ReadString_def TrimRight_def)

text \<open>
  Claim C9. Whenever \<^verbatim>\<open>TOP\<close> is accepted and the block is read, the fields From, Subject
  and Date of the message \<^verbatim>\<open>Top\<close> returns are read from the lines before the first empty
  line of the block only: each field is the value of the last of those lines that gives a
  header of that name, and is empty when there is none. Whatever stands after the first
  empty line has no part in them; in a block without an empty line every line counts. A
  line gives a header only when it is not folded (does not start with a space or a tab) and
  holds \<^verbatim>\<open>": "\<close>; the name is the text before the first \<^verbatim>\<open>": "\<close>, compared in lower case.
\<close>

theorem Top_reads_headers_before_blank_line:
  "(POP3_cmd (''TOP '' @ Itoa n @ '' '' @ Itoa k) c = (Inr st, c1)
      \<and> readDot c1 = (Inr (hdr @ [] # body), c2) \<and> [] \<notin> set hdr
    \<longrightarrow> (\<exists>m. POP3_Top n k c = (Inr m, c2)
            \<and> From m = header_value ''from'' hdr
            \<and> Subject m = header_value ''subject'' hdr
            \<and> Date m = header_value ''date'' hdr))
   \<and> (POP3_cmd (''TOP '' @ Itoa n @ '' '' @ Itoa k) c = (Inr st, c1)
      \<and> readDot c1 = (Inr lines, c2) \<and> [] \<notin> set lines
    \<longrightarrow> (\<exists>m. POP3_Top n k c = (Inr m, c2)
            \<and> From m = header_value ''from'' lines
            \<and> Subject m = header_value ''subject'' lines
            \<and> Date m = header_value ''date'' lines))
   \<and> (folded l \<longrightarrow> header_of l = None)
   \<and> (Index l '': '' = None \<longrightarrow> header_of l = None)
   \<and> (\<not> folded (key @ '': '' @ v) \<and> Index key '': '' = None
      \<longrightarrow> header_of (key @ '': '' @ v) = Some (ToLower key, v))"
proof -
  have a: "\<exists>m. POP3_Top n k c = (Inr m, c2)
            \<and> From m = header_value ''from'' hdr
            \<and> Subject m = header_value ''subject'' hdr
            \<and> Date m = header_value ''date'' hdr"
    if h: "POP3_cmd (''TOP '' @ Itoa n @ '' '' @ Itoa k) c = (Inr st, c1)
      \<and> readDot c1 = (Inr (hdr @ [] # body), c2) \<and> [] \<notin> set hdr"
  proof -
    have "[] \<notin> set hdr" using h by blast
    then have tw: "takeWhile (\<lambda>l. l \<noteq> []) (hdr @ [] # body) = hdr"
      by (induction hdr) auto
    show ?thesis
      using POP3_Top_lines [of n k c st c1 "hdr @ [] # body" c2] h unfolding tw by blast
  qed
  have b: "\<exists>m. POP3_Top n k c = (Inr m, c2)
            \<and> From m = header_value ''from'' lines
            \<and> Subject m = header_value ''subject'' lines
            \<and> Date m = header_value ''date'' lines"
    if h: "POP3_cmd (''TOP '' @ Itoa n @ '' '' @ Itoa k) c = (Inr st, c1)
      \<and> readDot c1 = (Inr lines, c2) \<and> [] \<notin> set lines"
  proof -
    have "[] \<notin> set lines" using h by blast
    then have tw: "takeWhile (\<lambda>l. l \<noteq> []) lines = lines"
      by (induction lines) auto
    show ?thesis
      using POP3_Top_lines [of n k c st c1 lines c2] h unfolding tw by blast
  qed
  have d: "header_of l = None" if "folded l"
    using that by (simp add: header_of_def)
  have e: "header_of l = None" if "Index l '': '' = None"
    using that by (simp add: header_of_def)
  have f: "header_of (key @ '': '' @ v) = Some (ToLower key, v)"
    if "\<not> folded (key @ '': '' @ v) \<and> Index key '': '' = None"
    using that header_of_line by blast
  show ?thesis
    using a b d e f by blast
qed

text \<open>
  The header names are taken in any case, the folded line and the line without \<^verbatim>\<open>": "\<close>
  give nothing, and the \<^verbatim>\<open>From:\<close> and \<^verbatim>\<open>Date:\<close> lines after the empty line leave the
  fields as the headers set them: From is \<^verbatim>\<open>alice\<close>, Date is empty.
\<close>

theorem Top_reads_headers_before_blank_line_witness:
  "fst (POP3_cmd (''TOP '' @ Itoa 1 @ '' '' @ Itoa 0)
          (fresh (wire (''+OK'' # (top_headers @ [] # top_body) @ [''.''])))) = Inr ''+OK''
   \<and> fst (readDot (snd (POP3_cmd (''TOP '' @ Itoa 1 @ '' '' @ Itoa 0)
          (fresh (wire (''+OK'' # (top_headers @ [] # top_body) @ [''.'']))))))
       = Inr (top_headers @ [] # top_body)
   \<and> [] \<notin> set top_headers
   \<and> header_fields (fst (POP3_Top 1 0 (fresh (wire (''+OK'' # (top_headers @ [] # top_body) @ [''.''])))))
       = Some (''alice'', ''hi'', [])
   \<and> fst (POP3_cmd (''TOP '' @ Itoa 1 @ '' '' @ Itoa 0)
          (fresh (wire (''+OK'' # top_body @ [''.''])))) = Inr ''+OK''
   \<and> fst (readDot (snd (POP3_cmd (''TOP '' @ Itoa 1 @ '' '' @ Itoa 0)
          (fresh (wire (''+OK'' # top_body @ [''.'']))))))
       = Inr top_body
   \<and> [] \<notin> set top_body
   \<and> header_fields (fst (POP3_Top 1 0 (fresh (wire (''+OK'' # top_body @ [''.''])))))
       = Some (''mallory'', [], ''in the body'')
   \<and> folded '' Date: folded'' \<and> header_of '' Date: folded'' = None
   \<and> Index ''Date:nospace'' '': '' = None \<and> header_of ''Date:nospace'' = None
   \<and> \<not> folded (''FROM'' @ '': '' @ ''alice'') \<and> Index ''FROM'' '': '' = None
   \<and> header_of (''FROM'' @ '': '' @ ''alice'') = Some (''from'', ''alice'')"
proof -
  let ?cmd = "''TOP '' @ Itoa 1 @ '' '' @ Itoa 0"
  let ?b1 = "top_headers @ [] # top_body"
  let ?c1 = "fresh (wire (''+OK'' # ?b1 @ [''.'']))"
  let ?c2 = "fresh (wire (''+OK'' # top_body @ [''.'']))"
  note t1 = Top_reads_headers_before_blank_line
    [where n = 1 and k = 0 and c = ?c1 and st = "''+OK''" and ?c1.0 = "snd (POP3_cmd ?cmd ?c1)"
       and hdr = top_headers and body = top_body
       and ?c2.0 = "snd (readDot (snd (POP3_cmd ?cmd ?c1)))"
       and lines = "[]" and l = "'' Date: folded''" and key = "''FROM''" and v = "''alice''"]
  note t2 = Top_reads_headers_before_blank_line
    [where n = 1 and k = 0 and c = ?c2 and st = "''+OK''" and ?c1.0 = "snd (POP3_cmd ?cmd ?c2)"
       and hdr = "[]" and body = "[]" and ?c2.0 = "snd (readDot (snd (POP3_cmd ?cmd ?c2)))"
       and lines = top_body and l = "''Date:nospace''" and key = "''FROM''" and v = "''alice''"]
  have w: "wleft ?c1 \<noteq> Some 0 \<and> wleft ?c2 \<noteq> Some 0 \<and> wireLine ''+OK'' \<and> \<not> HasPrefix ''+OK'' ''-ERR''"
    by (simp add: fresh_def wireLine_def HasPrefix_def)
  have b1: "(\<forall>l\<in>set ?b1. wireLine l \<and> l \<noteq> ''.'') \<and> map dotUnstuff ?b1 = ?b1
      \<and> [] \<notin> set top_headers"
    by (simp add: top_headers_def top_body_def wireLine_def dotUnstuff_def HasPrefix_def)
  have b2: "(\<forall>l\<in>set top_body. wireLine l \<and> l \<noteq> ''.'') \<and> map dotUnstuff top_body = top_body
      \<and> [] \<notin> set top_body"
    by (simp add: top_body_def wireLine_def dotUnstuff_def HasPrefix_def)
  define s1 where "s1 = snd (POP3_cmd ?cmd ?c1)"
  define s2 where "s2 = snd (POP3_cmd ?cmd ?c2)"
  have "POP3_cmd ?cmd ?c1
      = (Inr ''+OK'', (snd (Fprintf (Cmd (?cmd @ CRLF)) ?c1))\<lparr>incoming := wire ?b1 @ ''.'' @ CRLF @ []\<rparr>)"
    using w by (intro POP3_cmd_ok) (auto simp: fresh_def wire_def)
  then have p1: "POP3_cmd ?cmd ?c1 = (Inr ''+OK'', s1)"
    and i1: "incoming s1 = wire ?b1 @ ''.'' @ CRLF @ []"
    by (simp_all add: s1_def)
  have "POP3_cmd ?cmd ?c2
      = (Inr ''+OK'', (snd (Fprintf (Cmd (?cmd @ CRLF)) ?c2))\<lparr>incoming := wire top_body @ ''.'' @ CRLF @ []\<rparr>)"
    using w by (intro POP3_cmd_ok) (auto simp: fresh_def wire_def)
  then have p2: "POP3_cmd ?cmd ?c2 = (Inr ''+OK'', s2)"
    and i2: "incoming s2 = wire top_body @ ''.'' @ CRLF @ []"
    by (simp_all add: s2_def)
  have bl1: "\<forall>l\<in>set ?b1. wireLine l \<and> l \<noteq> ''.''" and bl2: "\<forall>l\<in>set top_body. wireLine l \<and> l \<noteq> ''.''"
    using b1 b2 by blast+
  have "readDot_loop [] s1 = (Inr ([] @ map dotUnstuff ?b1), s1\<lparr>incoming := []\<rparr>)"
    by (rule readDot_loop_block [OF bl1 i1])
  then have d1: "readDot s1 = (Inr ?b1, snd (readDot s1))"
    using b1 by (simp add: readDot_def)
  have "readDot_loop [] s2 = (Inr ([] @ map dotUnstuff top_body), s2\<lparr>incoming := []\<rparr>)"
    by (rule readDot_loop_block [OF bl2 i2])
  then have d2: "readDot s2 = (Inr top_body, snd (readDot s2))"
    using b2 by (simp add: readDot_def)
  have e1: "POP3_cmd ?cmd ?c1 = (Inr ''+OK'', snd (POP3_cmd ?cmd ?c1))
      \<and> readDot (snd (POP3_cmd ?cmd ?c1)) = (Inr ?b1, snd (readDot (snd (POP3_cmd ?cmd ?c1))))"
    using p1 d1 unfolding s1_def by simp
  have e2: "POP3_cmd ?cmd ?c2 = (Inr ''+OK'', snd (POP3_cmd ?cmd ?c2))
      \<and> readDot (snd (POP3_cmd ?cmd ?c2)) = (Inr top_body, snd (readDot (snd (POP3_cmd ?cmd ?c2))))"
    using p2 d2 unfolding s2_def by simp
  have f1: "fst (POP3_cmd ?cmd ?c1) = Inr ''+OK''"
    and g1: "fst (readDot (snd (POP3_cmd ?cmd ?c1))) = Inr ?b1"
    using arg_cong [OF p1, of fst] arg_cong [OF d1, of fst] unfolding s1_def by simp_all
  have f2: "fst (POP3_cmd ?cmd ?c2) = Inr ''+OK''"
    and g2: "fst (readDot (snd (POP3_cmd ?cmd ?c2))) = Inr top_body"
    using arg_cong [OF p2, of fst] arg_cong [OF d2, of fst] unfolding s2_def by simp_all
  have v1: "header_value ''from'' top_headers = ''alice''
      \<and> header_value ''subject'' top_headers = ''hi''
      \<and> header_value ''date'' top_headers = []"
    by code_simp
  have v2: "header_value ''from'' top_body = ''mallory''
      \<and> header_value ''subject'' top_body = []
      \<and> header_value ''date'' top_body = ''in the body''"
    by code_simp
  have l: "folded '' Date: folded'' \<and> Index ''Date:nospace'' '': '' = None
      \<and> \<not> folded (''FROM'' @ '': '' @ ''alice'') \<and> Index ''FROM'' '': '' = None"
    by (simp add: folded_def HasPrefix_def)
  have lw: "ToLower ''FROM'' = ''from''"
    by code_simp
  obtain m1 where "fst (POP3_Top 1 0 ?c1) = Inr m1" and "From m1 = header_value ''from'' top_headers"
    and "Subject m1 = header_value ''subject'' top_headers"
    and "Date m1 = header_value ''date'' top_headers"
    using t1 [THEN conjunct1] e1 b1 by auto
  then have r1: "header_fields (fst (POP3_Top 1 0 ?c1)) = Some (''alice'', ''hi'', [])"
    using v1 by (simp add: header_fields_def)
  obtain m2 where "fst (POP3_Top 1 0 ?c2) = Inr m2"
    and "From m2 = header_value ''from'' top_body"
    and "Subject m2 = header_value ''subject'' top_body"
    and "Date m2 = header_value ''date'' top_body"
    using t2 [THEN conjunct2, THEN conjunct1] e2 b2 by auto
  then have r2: "header_fields (fst (POP3_Top 1 0 ?c2)) = Some (''mallory'', [], ''in the body'')"
    using v2 by (simp add: header_fields_def)
  have h1: "header_of '' Date: folded'' = None"
    using t1 [THEN conjunct2, THEN conjunct2, THEN conjunct1] l by simp
  have h2: "header_of ''Date:nospace'' = None"
    using t2 [THEN conjunct2, THEN conjunct2, THEN conjunct2, THEN conjunct1] l by simp
  have h3: "header_of (''FROM'' @ '': '' @ ''alice'') = Some (''from'', ''alice'')"
    using t1 [THEN conjunct2, THEN conjunct2, THEN conjunct2, THEN conjunct2] l lw by simp
  show ?thesis
    using f1 g1 f2 g2 b1 b2 r1 r2 l h1 h2 h3 by blast
qed

text \<open>
  Claim C10, as amended. With an empty list of recipients the writes of \<^verbatim>\<open>Send\<close> are an
  initial part (never an empty one) of: the \<^verbatim>\<open>MAIL FROM\<close> write, the \<^verbatim>\<open>DATA\<close> write, the lines
  of the message, the lone dot; and no line of the message is written as a lone dot. When
  the sender holds no carriage return and no line feed, every write is one line, the
  commands the server receives are the same initial part of \<^verbatim>\<open>MAIL FROM\<close>, \<^verbatim>\<open>DATA\<close>, and none
  of them is an \<^verbatim>\<open>RCPT TO\<close>. Once \<^verbatim>\<open>MAIL FROM\<close> is taken the next thing \<^verbatim>\<open>Send\<close> does is
  \<^verbatim>\<open>DATA\<close>, and it goes on exactly as for any other request. No error comes from the client:
  on a transport that takes every write, \<^verbatim>\<open>Send\<close> succeeds exactly when none of the three
  replies of the server (to \<^verbatim>\<open>MAIL FROM\<close>, to \<^verbatim>\<open>DATA\<close> and to the message) starts with 4 or 5.
\<close>

theorem Send_without_recipients:
  "To req = [] \<longrightarrow>
     issued c (snd (Send now req c)) \<noteq> []
     \<and> issued c (snd (Send now req c))
         = take (length (issued c (snd (Send now req c))))
             (mailFrom req # Cmd (''DATA'' @ CRLF)
                # map dataLine (Split (Send_msg now req) [LF]) @ [Data (''.'' @ CRLF)])
     \<and> ''.'' \<notin> set (messageLines now req)
     \<and> (noBreak (From_req req)
        \<longrightarrow> received (sent (issued c (snd (Send now req c))))
              = take (length (issued c (snd (Send now req c))))
                  (mailFromLine req # ''DATA'' # messageLines now req @ [''.''])
            \<and> commandsReceived c (snd (Send now req c))
              = take (length (issued c (snd (Send now req c)))) [mailFromLine req, ''DATA'']
            \<and> filter isRcptLine (commandsReceived c (snd (Send now req c))) = [])
     \<and> (SMTP_cmd (''MAIL FROM:<'' @ From_req req @ ''>'') c = ((r, None), c1)
        \<longrightarrow> Send now req c
            = (case SMTP_cmd ''DATA'' c1 of
                 ((_, Some err), c2) \<Rightarrow> (Some (Wrap ''smtp DATA: '' err), c2)
               | ((_, None), c2) \<Rightarrow> Send_data now req c2))
     \<and> (wleft c = None \<and> wireLine r1 \<and> \<not> continuation r1 \<and> wireLine r2 \<and> \<not> continuation r2
          \<and> wireLine r3 \<and> \<not> continuation r3 \<and> incoming c = wire [r1, r2, r3] @ rest
        \<longrightarrow> (fst (Send now req c) = None
               \<longleftrightarrow> \<not> rejected r1 \<and> \<not> rejected r2 \<and> \<not> rejected r3)
            \<and> (\<not> rejected r1
               \<longrightarrow> take 2 (issued c (snd (Send now req c)))
                     = [mailFrom req, Cmd (''DATA'' @ CRLF)])
            \<and> (\<not> rejected r1 \<and> noBreak (From_req req)
               \<longrightarrow> commandsReceived c (snd (Send now req c)) = [mailFromLine req, ''DATA'']))"
proof
  assume to: "To req = []"
  let ?w = "issued c (snd (Send now req c))"
  have sc: "script now req = mailFrom req # Cmd (''DATA'' @ CRLF)
                # map dataLine (Split (Send_msg now req) [LF]) @ [Data (''.'' @ CRLF)]"
    using to by (simp add: script_def)
  have a: "?w \<noteq> [] \<and> ?w = take (length ?w) (mailFrom req # Cmd (''DATA'' @ CRLF)
                # map dataLine (Split (Send_msg now req) [LF]) @ [Data (''.'' @ CRLF)])"
    using Send_issued_take [of c now req] unfolding sc .
  have nd: "''.'' \<notin> set (messageLines now req)"
    by (rule messageLines_no_dot)
  have l0: "received (sent ?w)
      = take (length ?w) (mailFromLine req # ''DATA'' # messageLines now req @ [''.''])"
    if "noBreak (From_req req)"
    using Send_received [of req c now] that to by (simp add: noBreak_def scriptLines_def)
  have l1: "commandsReceived c (snd (Send now req c)) = take (length ?w) [mailFromLine req, ''DATA'']"
    if "noBreak (From_req req)"
    using Send_commands [of req c now] that to by (simp add: noBreak_def)
  have l2: "filter isRcptLine (commandsReceived c (snd (Send now req c))) = []"
    if h: "noBreak (From_req req)"
  proof -
    have "filter isRcptLine (take (length ?w) [mailFromLine req, ''DATA'']) = []"
      by (rule filter_take_Nil) simp
    then show ?thesis using l1 [OF h] by simp
  qed
  have b: "Send now req c
            = (case SMTP_cmd ''DATA'' c1 of
                 ((_, Some err), c2) \<Rightarrow> (Some (Wrap ''smtp DATA: '' err), c2)
               | ((_, None), c2) \<Rightarrow> Send_data now req c2)"
    if "SMTP_cmd (''MAIL FROM:<'' @ From_req req @ ''>'') c = ((r, None), c1)"
    using that to by (simp add: Send_def)
  have d: "(fst (Send now req c) = None \<longleftrightarrow> \<not> rejected r1 \<and> \<not> rejected r2 \<and> \<not> rejected r3)
            \<and> (\<not> rejected r1
               \<longrightarrow> take 2 (issued c (snd (Send now req c)))
                     = [mailFrom req, Cmd (''DATA'' @ CRLF)])"
    if h: "wleft c = None \<and> wireLine r1 \<and> \<not> continuation r1 \<and> wireLine r2 \<and> \<not> continuation r2
          \<and> wireLine r3 \<and> \<not> continuation r3 \<and> incoming c = wire [r1, r2, r3] @ rest"
  proof -
    let ?c1 = "c\<lparr>incoming := wire [r2, r3] @ rest,
                  writes := writes c @ [Cmd ((''MAIL FROM:<'' @ From_req req @ ''>'') @ CRLF)]\<rparr>"
    let ?c2 = "?c1\<lparr>incoming := wire [r3] @ rest, writes := writes ?c1 @ [Cmd (''DATA'' @ CRLF)]\<rparr>"
    let ?c3 = "?c2\<lparr>incoming := rest,
                  writes := writes ?c2 @ map dataLine (Split (Send_msg now req) [LF])
                            @ [Data (''.'' @ CRLF)]\<rparr>"
    have 1: "SMTP_cmd (''MAIL FROM:<'' @ From_req req @ ''>'') c
        = ((r1, if rejected r1 then Some (Errorf (''smtp: '' @ r1)) else None), ?c1)"
      using h by (intro SMTP_cmd_final) auto
    have 2: "SMTP_cmd ''DATA'' ?c1
        = ((r2, if rejected r2 then Some (Errorf (''smtp: '' @ r2)) else None), ?c2)"
      using h by (intro SMTP_cmd_final) auto
    have 3: "Send_data now req ?c2
        = (if rejected r3 then Some (Wrap ''smtp DATA end: '' (Errorf (''smtp: '' @ r3))) else None, ?c3)"
      using h by (intro Send_data_reply) auto
    have w1: "issued c ?c1 = [mailFrom req]"
      by (simp add: issued_def mailFrom_def)
    have w2: "take 2 (issued c ?c2) = [mailFrom req, Cmd (''DATA'' @ CRLF)]"
      by (simp add: issued_def mailFrom_def)
    have w3: "take 2 (issued c ?c3) = [mailFrom req, Cmd (''DATA'' @ CRLF)]"
      by (simp add: issued_def mailFrom_def)
    show ?thesis
    proof (cases "rejected r1")
      case True
      then have "Send now req c = (Some (Wrap ''smtp MAIL FROM: '' (Errorf (''smtp: '' @ r1))), ?c1)"
        by (simp only: Send_def 1 prod.case option.case if_True)
      then show ?thesis using True by simp
    next
      case n1: False
      show ?thesis
      proof (cases "rejected r2")
        case True
        then have "Send now req c = (Some (Wrap ''smtp DATA: '' (Errorf (''smtp: '' @ r2))), ?c2)"
          using n1 by (simp only: Send_def 1 2 to Send_rcpt.simps prod.case option.case if_True if_False)
        then show ?thesis using True n1 w2 by simp
      next
        case n2: False
        then have "Send now req c
            = (if rejected r3 then Some (Wrap ''smtp DATA end: '' (Errorf (''smtp: '' @ r3))) else None, ?c3)"
          using n1 by (simp only: Send_def 1 2 3 to Send_rcpt.simps prod.case option.case if_False)
        then show ?thesis using n1 n2 w3 by simp
      qed
    qed
  qed
  have g: "commandsReceived c (snd (Send now req c)) = [mailFromLine req, ''DATA'']"
    if h: "wleft c = None \<and> wireLine r1 \<and> \<not> continuation r1 \<and> wireLine r2 \<and> \<not> continuation r2
          \<and> wireLine r3 \<and> \<not> continuation r3 \<and> incoming c = wire [r1, r2, r3] @ rest"
      and n: "\<not> rejected r1 \<and> noBreak (From_req req)"
  proof -
    have "take 2 ?w = [mailFrom req, Cmd (''DATA'' @ CRLF)]"
      using d [OF h] n by blast
    then have "2 \<le> length ?w"
      by (metis length_take list.size(3,4) min.cobounded1 One_nat_def Suc_1 add.left_neutral plus_1_eq_Suc)
    then have "take (length ?w) [mailFromLine req, ''DATA''] = [mailFromLine req, ''DATA'']"
      by simp
    then show ?thesis using l1 n by simp
  qed
  show "?w \<noteq> []
     \<and> ?w = take (length ?w)
             (mailFrom req # Cmd (''DATA'' @ CRLF)
                # map dataLine (Split (Send_msg now req) [LF]) @ [Data (''.'' @ CRLF)])
     \<and> ''.'' \<notin> set (messageLines now req)
     \<and> (noBreak (From_req req)
        \<longrightarrow> received (sent ?w)
              = take (length ?w) (mailFromLine req # ''DATA'' # messageLines now req @ [''.''])
            \<and> commandsReceived c (snd (Send now req c))
              = take (length ?w) [mailFromLine req, ''DATA'']
            \<and> filter isRcptLine (commandsReceived c (snd (Send now req c))) = [])
     \<and> (SMTP_cmd (''MAIL FROM:<'' @ From_req req @ ''>'') c = ((r, None), c1)
        \<longrightarrow> Send now req c
            = (case SMTP_cmd ''DATA'' c1 of
                 ((_, Some err), c2) \<Rightarrow> (Some (Wrap ''smtp DATA: '' err), c2)
               | ((_, None), c2) \<Rightarrow> Send_data now req c2))
     \<and> (wleft c = None \<and> wireLine r1 \<and> \<not> continuation r1 \<and> wireLine r2 \<and> \<not> continuation r2
          \<and> wireLine r3 \<and> \<not> continuation r3 \<and> incoming c = wire [r1, r2, r3] @ rest
        \<longrightarrow> (fst (Send now req c) = None
               \<longleftrightarrow> \<not> rejected r1 \<and> \<not> rejected r2 \<and> \<not> rejected r3)
            \<and> (\<not> rejected r1
               \<longrightarrow> take 2 (issued c (snd (Send now req c)))
                     = [mailFrom req, Cmd (''DATA'' @ CRLF)])
            \<and> (\<not> rejected r1 \<and> noBreak (From_req req)
               \<longrightarrow> commandsReceived c (snd (Send now req c)) = [mailFromLine req, ''DATA'']))"
    using a nd l0 l1 l2 b d g by blast
qed

text \<open>
  No recipients. A server that answers \<^verbatim>\<open>250\<close>, \<^verbatim>\<open>354\<close>, \<^verbatim>\<open>250\<close>: \<^verbatim>\<open>Send\<close> succeeds, its
  first two writes are \<^verbatim>\<open>MAIL FROM\<close> and \<^verbatim>\<open>DATA\<close>, and these two are the commands the server
  receives. A server that refuses \<^verbatim>\<open>DATA\<close> with \<^verbatim>\<open>554\<close>: \<^verbatim>\<open>Send\<close> fails.
\<close>

theorem Send_without_recipients_witness:
  "To req_none = [] \<and> noBreak (From_req req_none)
   \<and> SMTP_cmd (''MAIL FROM:<'' @ From_req req_none @ ''>'')
        (fresh (wire [''250 ok'', ''354 go'', ''250 queued'']))
       = ((''250 ok'', None),
          \<lparr>incoming = wire [''354 go'', ''250 queued''],
           writes = [Cmd (''MAIL FROM:<a@x>'' @ CRLF)],
           wleft = None, tls = False, closed = False\<rparr>)
   \<and> wireLine ''250 ok'' \<and> \<not> continuation ''250 ok'' \<and> \<not> rejected ''250 ok''
   \<and> wireLine ''354 go'' \<and> \<not> continuation ''354 go'' \<and> \<not> rejected ''354 go''
   \<and> wireLine ''250 queued'' \<and> \<not> continuation ''250 queued'' \<and> \<not> rejected ''250 queued''
   \<and> fst (Send now_example req_none (fresh (wire [''250 ok'', ''354 go'', ''250 queued'']))) = None
   \<and> filter isRcptLine (commandsReceived (fresh (wire [''250 ok'', ''354 go'', ''250 queued'']))
        (snd (Send now_example req_none (fresh (wire [''250 ok'', ''354 go'', ''250 queued'']))))) = []
   \<and> commandsReceived (fresh (wire [''250 ok'', ''354 go'', ''250 queued'']))
        (snd (Send now_example req_none (fresh (wire [''250 ok'', ''354 go'', ''250 queued'']))))
       = [''MAIL FROM:<a@x>'', ''DATA'']
   \<and> take 2 (issued (fresh (wire [''250 ok'', ''354 go'', ''250 queued'']))
        (snd (Send now_example req_none (fresh (wire [''250 ok'', ''354 go'', ''250 queued''])))))
       = [Cmd (''MAIL FROM:<a@x>'' @ CRLF), Cmd (''DATA'' @ CRLF)]
   \<and> wireLine ''554 no valid recipients'' \<and> \<not> continuation ''554 no valid recipients''
   \<and> rejected ''554 no valid recipients''
   \<and> fst (Send now_example req_none
            (fresh (wire [''250 ok'', ''554 no valid recipients'', ''250 queued''])))
       \<noteq> None"
proof -
  let ?ok = "fresh (wire [''250 ok'', ''354 go'', ''250 queued''])"
  let ?no = "fresh (wire [''250 ok'', ''554 no valid recipients'', ''250 queued''])"
  let ?c1 = "\<lparr>incoming = wire [''354 go'', ''250 queued''],
            writes = [Cmd (''MAIL FROM:<a@x>'' @ CRLF)],
            wleft = None, tls = False, closed = False\<rparr>"
  note t1 = Send_without_recipients
      [of req_none ?ok now_example "''250 ok''" ?c1 "''250 ok''" "''354 go''" "''250 queued''" "[]"]
  note t2 = Send_without_recipients
      [of req_none ?no now_example "''250 ok''" ?c1
          "''250 ok''" "''554 no valid recipients''" "''250 queued''" "[]"]
  have to: "To req_none = []"
    by (simp add: req_none_def)
  have nl: "noBreak (From_req req_none)"
    by (simp add: req_none_def noBreak_def)
  have m: "SMTP_cmd (''MAIL FROM:<'' @ From_req req_none @ ''>'') ?ok = ((''250 ok'', None), ?c1)"
    by (simp add: run_smtp req_none_def)
  have l: "wireLine ''250 ok'' \<and> \<not> continuation ''250 ok'' \<and> \<not> rejected ''250 ok''
      \<and> wireLine ''354 go'' \<and> \<not> continuation ''354 go'' \<and> \<not> rejected ''354 go''
      \<and> wireLine ''250 queued'' \<and> \<not> continuation ''250 queued'' \<and> \<not> rejected ''250 queued''
      \<and> wireLine ''554 no valid recipients'' \<and> \<not> continuation ''554 no valid recipients''
      \<and> rejected ''554 no valid recipients''"
    by (simp add: wireLine_def continuation_def rejected_def)
  have s1: "wleft ?ok = None \<and> incoming ?ok = wire [''250 ok'', ''354 go'', ''250 queued''] @ []"
    by (simp add: fresh_def)
  have s2: "wleft ?no = None
      \<and> incoming ?no = wire [''250 ok'', ''554 no valid recipients'', ''250 queued''] @ []"
    by (simp add: fresh_def)
  have mf: "mailFrom req_none = Cmd (''MAIL FROM:<a@x>'' @ CRLF)"
    "mailFromLine req_none = ''MAIL FROM:<a@x>''"
    by (simp_all add: mailFrom_def mailFromLine_def req_none_def)
  have r1: "fst (Send now_example req_none ?ok) = None
      \<and> filter isRcptLine (commandsReceived ?ok (snd (Send now_example req_none ?ok))) = []
      \<and> commandsReceived ?ok (snd (Send now_example req_none ?ok))
          = [mailFromLine req_none, ''DATA'']
      \<and> take 2 (issued ?ok (snd (Send now_example req_none ?ok)))
          = [mailFrom req_none, Cmd (''DATA'' @ CRLF)]"
    using t1 to nl l s1 by blast
  have r2: "fst (Send now_example req_none ?no) \<noteq> None"
    using t2 to l s2 by blast
  show ?thesis
    using to nl m l r1 r2 unfolding mf by blast
qed

text \<open>
  Claim C10 as the specification states it fails: the list of recipients is empty and the
  sender holds a line break that carries an \<^verbatim>\<open>RCPT TO\<close> line. The server answers \<^verbatim>\<open>250\<close>
  to \<^verbatim>\<open>MAIL FROM\<close> and to \<^verbatim>\<open>RCPT TO\<close>, \<^verbatim>\<open>354\<close> to \<^verbatim>\<open>DATA\<close> and \<^verbatim>\<open>250\<close> to the message; \<^verbatim>\<open>Send\<close>
  succeeds, and the server has received an \<^verbatim>\<open>RCPT TO\<close> command.
\<close>

theorem Send_hidden_RCPT_counterexample:
  "To req_hidden_rcpt = []
   \<and> take 2 (issued (fresh (wire [''250 ok'', ''250 ok'', ''354 go'', ''250 queued'']))
        (snd (Send now_example req_hidden_rcpt
                (fresh (wire [''250 ok'', ''250 ok'', ''354 go'', ''250 queued''])))))
       = [Cmd (''MAIL FROM:<a@x>'' @ CRLF @ ''RCPT TO:<v@y>'' @ CRLF), Cmd (''DATA'' @ CRLF)]
   \<and> commandsReceived (fresh (wire [''250 ok'', ''250 ok'', ''354 go'', ''250 queued'']))
        (snd (Send now_example req_hidden_rcpt
                (fresh (wire [''250 ok'', ''250 ok'', ''354 go'', ''250 queued'']))))
       = [''MAIL FROM:<a@x>'', ''RCPT TO:<v@y>'', ''DATA'']
   \<and> filter isRcptLine
        (commandsReceived (fresh (wire [''250 ok'', ''250 ok'', ''354 go'', ''250 queued'']))
          (snd (Send now_example req_hidden_rcpt
                  (fresh (wire [''250 ok'', ''250 ok'', ''354 go'', ''250 queued''])))))
       = [''RCPT TO:<v@y>'']
   \<and> fst (Send now_example req_hidden_rcpt
              (fresh (wire [''250 ok'', ''250 ok'', ''354 go'', ''250 queued''])))
       = None"
  by code_simp

end
